theory Spec2Isabelle
  imports Main "HOL-Library.Word"
begin

unbundle bit_operations_syntax

section \<open>Machine integers\<close>

type_synonym W64 = "64 word"
type_synonym W32 = "32 word"
type_synonym W16 = "16 word"

text \<open>
  \<open>W16s\<close> fields (\<open>refcount\<close>, \<open>forward_cycle\<close>, \<open>cycles_left\<close>) are kept as \<open>int\<close>;
  every store into such a field goes through \<open>w16s\<close>, the two's complement wrap-around of
  a 16-bit signed integer.
\<close>

definition w16s :: "int \<Rightarrow> int" where
  "w16s x = (x + 32768) mod 65536 - 32768"

section \<open>Configuration management (config.cpp)\<close>

datatype option_type =
    OPTION_TYPE_NONE | OPTION_TYPE_W64 | OPTION_TYPE_FLOAT | OPTION_TYPE_STRING
  | OPTION_TYPE_TRAILER | OPTION_TYPE_BOOL | OPTION_TYPE_SECTION

text \<open>
  One row of \<open>options[]\<close>. The \<open>void* variable\<close> of the source is the name of the
  global it points to; \<open>None\<close> is the null pointer of the section rows.
\<close>

record CommandLineOptions =
  opt_option :: "string option"
  opt_type :: option_type
  opt_ishex :: bool
  opt_description :: string
  opt_variable :: "string option"

text \<open>
  The globals behind the table: a \<open>W64\<close>, a \<open>char*\<close> (\<open>None\<close> is null) or a float, kept
  as the text handed to \<open>atof\<close>.
\<close>

datatype cfg_value = W64v W64 | Strv "string option" | Floatv string

type_synonym cfg_vars = "string \<Rightarrow> cfg_value"

definition mk_option :: "string option \<Rightarrow> option_type \<Rightarrow> string \<Rightarrow> string option \<Rightarrow> CommandLineOptions" where
  "mk_option n t d v =
     \<lparr>opt_option = n, opt_type = t, opt_ishex = False, opt_description = d, opt_variable = v\<rparr>"

definition options :: "CommandLineOptions list" where
  "options = [
     mk_option None OPTION_TYPE_SECTION ''Logging Control'' None,
     mk_option (Some ''quiet'') OPTION_TYPE_BOOL ''Do not print PTLsim system information banner'' (Some ''nobanner''),
     mk_option (Some ''logfile'') OPTION_TYPE_STRING ''Log filename'' (Some ''log_filename''),
     mk_option (Some ''loglevel'') OPTION_TYPE_W64 ''Log level'' (Some ''loglevel''),
     mk_option (Some ''startlog'') OPTION_TYPE_W64 ''Start logging after iteration <startlog>'' (Some ''start_log_at_iteration''),
     mk_option (Some ''shortlog'') OPTION_TYPE_W64 ''Start summary logging after iteration <shortlog>'' (Some ''start_short_log_at_iteration''),
     mk_option None OPTION_TYPE_SECTION ''Statistics Database'' None,
     mk_option (Some ''stats'') OPTION_TYPE_STRING ''Statistics data store hierarchy root'' (Some ''stats_filename''),
     mk_option (Some ''snapshot'') OPTION_TYPE_W64 ''Take statistical snapshot and reset every <snapshot> cycles'' (Some ''snapshot_cycles''),
     mk_option None OPTION_TYPE_SECTION ''Trace Start Point'' None,
     mk_option (Some ''startrip'') OPTION_TYPE_W64 ''Start at rip <startrip>'' (Some ''start_at_rip''),
     mk_option (Some ''startrepeat'') OPTION_TYPE_W64 ''Start only after passing <startrip> at least <startrepeat> times'' (Some ''start_at_rip_repeat''),
     mk_option (Some ''excludeld'') OPTION_TYPE_BOOL ''Exclude dynamic linker execution'' (Some ''include_dyn_linker''),
     mk_option (Some ''trigger'') OPTION_TYPE_BOOL ''Trigger mode: wait for user process to do simcall before entering PTL mode'' (Some ''trigger_mode''),
     mk_option None OPTION_TYPE_SECTION ''Trace Stop Point'' None,
     mk_option (Some ''stop'') OPTION_TYPE_W64 ''Stop after <stop> iterations'' (Some ''stop_at_iteration''),
     mk_option (Some ''stoprip'') OPTION_TYPE_W64 ''Stop before rip <stoprip> is translated for the first time'' (Some ''stop_at_rip''),
     mk_option (Some ''bbinsns'') OPTION_TYPE_W64 ''In final basic block, only translate <bbinsns> user instructions'' (Some ''insns_in_last_basic_block''),
     mk_option (Some ''stopinsns'') OPTION_TYPE_W64 ''Stop after executing <stopinsns> user instructions'' (Some ''stop_at_user_insns''),
     mk_option (Some ''flushevery'') OPTION_TYPE_W64 ''Flush the pipeline every N committed instructions'' (Some ''flush_interval''),
     mk_option None OPTION_TYPE_SECTION ''Sequential and Native Control'' None,
     mk_option (Some ''profonly'') OPTION_TYPE_BOOL ''Profile user code in native mode only'' (Some ''user_profile_only''),
     mk_option (Some ''forceseq'') OPTION_TYPE_W64 ''Force trace at or after iteration <forceseq> to run sequential version'' (Some ''force_seq_at_iteration''),
     mk_option (Some ''allseq'') OPTION_TYPE_BOOL ''Completely disable out of order execution mode'' (Some ''all_sequential''),
     mk_option (Some ''exitend'') OPTION_TYPE_BOOL ''Kill the thread after full simulation completes rather than going native'' (Some ''exit_after_fullsim''),
     mk_option None OPTION_TYPE_SECTION ''Debugging'' None,
     mk_option (Some ''dumpcode'') OPTION_TYPE_STRING ''Save page of user code at final rip to file <dumpcode>'' (Some ''dumpcode_filename''),
     mk_option (Some ''perfect-cache'') OPTION_TYPE_BOOL ''Perfect cache hit rate'' (Some ''perfect_cache''),
     mk_option (Some ''ooo'') OPTION_TYPE_BOOL ''Use out of order core instead of PT2x core'' (Some ''use_out_of_order_core_dummy'')]"

text \<open>
  The initial values of the globals. \<open>MAX_CYCLE\<close> comes from \<open>ptlsim.h\<close>, which is not
  part of the sources at hand, and is a parameter. Globals without an initialiser
  (\<open>exit_after_fullsim\<close>, \<open>use_out_of_order_core_dummy\<close>) have static storage and start at
  zero.
\<close>

definition initial_vars :: "W64 \<Rightarrow> cfg_vars" where
  "initial_vars MAX_CYCLE = (\<lambda>name.
     if name = ''log_filename'' \<or> name = ''stats_filename'' \<or> name = ''dumpcode_filename''
       then Strv None
     else if name = ''include_dyn_linker'' \<or> name = ''start_at_rip_repeat''
             \<or> name = ''use_out_of_order_core'' then W64v 1
     else if name = ''insns_in_last_basic_block'' then W64v 65536
     else if name = ''stop_at_iteration'' \<or> name = ''stop_at_user_insns''
             \<or> name = ''force_seq_at_iteration'' \<or> name = ''start_log_at_iteration''
             \<or> name = ''start_short_log_at_iteration'' \<or> name = ''snapshot_cycles''
             \<or> name = ''flush_interval'' then W64v MAX_CYCLE
     else W64v 0)"

text \<open>
  The inner \<open>for\<close> loop of \<open>parse_options\<close>: the first row that is not a section and whose
  name is \<open>strequal\<close> to the option.
\<close>

fun find_option :: "CommandLineOptions list \<Rightarrow> string \<Rightarrow> CommandLineOptions option" where
  "find_option [] name = None"
| "find_option (e # es) name =
     (if opt_type e = OPTION_TYPE_SECTION then find_option es name
      else if opt_option e = Some name then Some e
      else find_option es name)"

text \<open>\<open>*((W64* )variable) = (!( *((W64* )variable)))\<close>: every boolean row points to a \<open>W64\<close>.\<close>

fun toggle :: "cfg_value \<Rightarrow> cfg_value" where
  "toggle (W64v v) = W64v (if v = 0 then 1 else 0)"
| "toggle x = x"

definition set_var :: "string option \<Rightarrow> cfg_value \<Rightarrow> cfg_vars \<Rightarrow> cfg_vars" where
  "set_var var v vars = (case var of None \<Rightarrow> vars | Some n \<Rightarrow> vars(n := v))"

definition toggle_var :: "string option \<Rightarrow> cfg_vars \<Rightarrow> cfg_vars" where
  "toggle_var var vars = (case var of None \<Rightarrow> vars | Some n \<Rightarrow> vars(n := toggle (vars n)))"

text \<open>The k/K, m/M, g/G, t/T suffix of a numeric value, cut off when the value has more than one character.\<close>

definition suffix_multiplier :: "string \<Rightarrow> W64 \<times> string" where
  "suffix_multiplier p =
     (if length p > 1 then
        (let c = last p in
         if c = CHR ''k'' \<or> c = CHR ''K'' then (1000, butlast p)
         else if c = CHR ''m'' \<or> c = CHR ''M'' then (1000000, butlast p)
         else if c = CHR ''g'' \<or> c = CHR ''G'' then (1000000000, butlast p)
         else if c = CHR ''t'' \<or> c = CHR ''T'' then (1000000000000, butlast p)
         else (1, p))
      else (1, p))"

text \<open>
  The \<open>while (i <= argc)\<close> loop over \<open>argv[1..argc]\<close>. \<open>strtoll\<close> is the C library's and is
  a parameter (the value read, the result may be anything when the text is not a number).
  Output to \<open>cerr\<close> is not modelled. An unknown option also swallows the argument after
  it (\<open>argv[i++]\<close> in the warning); a \<open>W64\<close> option whose value is the empty string leaves
  \<open>i\<close> on that value, which then ends the loop as a trailing argument. A row of type
  \<open>OPTION_TYPE_TRAILER\<close> reaches \<open>assert(false)\<close>: \<open>None\<close>.
\<close>

fun parse_args :: "(string \<Rightarrow> W64) \<Rightarrow> string list \<Rightarrow> cfg_vars \<Rightarrow> cfg_vars option" where
  "parse_args strtoll [] vars = Some vars"
| "parse_args strtoll (a # rest) vars =
     (if a \<noteq> [] \<and> hd a = CHR ''-'' \<and> length a > 1 then
        (case find_option options (tl a) of
           None \<Rightarrow> (case rest of [] \<Rightarrow> Some vars | skipped # rest' \<Rightarrow> parse_args strtoll rest' vars)
         | Some e \<Rightarrow>
            (case opt_type e of
               OPTION_TYPE_BOOL \<Rightarrow> parse_args strtoll rest (toggle_var (opt_variable e) vars)
             | OPTION_TYPE_NONE \<Rightarrow> parse_args strtoll rest vars
             | OPTION_TYPE_W64 \<Rightarrow>
                 (case rest of
                    [] \<Rightarrow> Some vars
                  | p # rest' \<Rightarrow>
                      if p = [] then Some vars
                      else (let (multiplier, p') = suffix_multiplier p;
                                v = strtoll p' * multiplier
                            in parse_args strtoll rest' (set_var (opt_variable e) (W64v v) vars)))
             | OPTION_TYPE_FLOAT \<Rightarrow>
                 (case rest of
                    [] \<Rightarrow> Some vars
                  | p # rest' \<Rightarrow> parse_args strtoll rest' (set_var (opt_variable e) (Floatv p) vars))
             | OPTION_TYPE_STRING \<Rightarrow>
                 (case rest of
                    [] \<Rightarrow> Some vars
                  | p # rest' \<Rightarrow> parse_args strtoll rest' (set_var (opt_variable e) (Strv (Some p)) vars))
             | _ \<Rightarrow> None))
      else Some vars)"

text \<open>\<open>parse_options\<close> on the arguments \<open>argv[1..argc]\<close>, from the initial values of the globals.\<close>

definition parse_options :: "(string \<Rightarrow> W64) \<Rightarrow> W64 \<Rightarrow> string list \<Rightarrow> cfg_vars option" where
  "parse_options strtoll MAX_CYCLE args = parse_args strtoll args (initial_vars MAX_CYCLE)"

section \<open>The out-of-order core (ooocore.cpp): configuration and data\<close>

text \<open>
  \<open>ooohwdef.h\<close>, \<open>ptlhwdef.h\<close>, \<open>globals.h\<close> and \<open>logic.h\<close> are not among the sources at
  hand. Every constant and table they define is a field of \<open>hwdef\<close>, so that each result
  below holds for any configuration: the sizes of the structures, the flag masks and
  exception codes, the architectural register numbers, the classes, functional units and
  latencies of the opcodes (\<open>opinfo\<close>), the cluster table and the inter-cluster latencies.
\<close>

record hwdef =
  ROB_SIZE :: nat
  LDQ_SIZE :: int
  STQ_SIZE :: int
  PHYS_REG_FILE_SIZE :: nat
  PHYS_REG_NULL :: nat
  TRANSREG_COUNT :: nat
  MAX_CLUSTERS :: nat
  MAX_FORWARDING_LATENCY :: int
  VIRT_ADDR_BITS :: nat
  virt_addr_mask :: W64
  FLAG_INV :: W16
  FLAG_WAIT :: W16
  EXCEPTION_Propagate :: W64
  EXCEPTION_UnalignedAccess :: W64
  EXCEPTION_PageFaultOnWrite :: W64
  EXCEPTION_PageFaultOnExec :: W64
  EXCEPTION_LoadStoreAliasing :: W64
  EXCEPTION_SkipBlock :: W64
  SETFLAG_ZF :: "8 word"
  SETFLAG_CF :: "8 word"
  SETFLAG_OF :: "8 word"
  REG_zf :: nat
  REG_cf :: nat
  REG_of :: nat
  REG_rip :: nat
  REG_flags :: nat
  REG_imm :: nat
  OP_chk :: nat
  isload :: "nat \<Rightarrow> bool"
  isstore :: "nat \<Rightarrow> bool"
  isbranch :: "nat \<Rightarrow> bool"
  isbarrier :: "nat \<Rightarrow> bool"
  opclassof :: "nat \<Rightarrow> nat"
  opinfo_fu :: "nat \<Rightarrow> W32"
  opinfo_latency :: "nat \<Rightarrow> int"
  clusters_fu_mask :: "int \<Rightarrow> W32"
  intercluster_latency_map :: "int \<Rightarrow> nat \<Rightarrow> int"
  setflags_to_x86_flags :: "8 word \<Rightarrow> W64"
  archdest_can_commit :: "nat \<Rightarrow> bool"
  archdest_is_visible :: "nat \<Rightarrow> bool"
  FRONTEND_WIDTH :: nat
  FRONTEND_STAGES :: int

text \<open>\<open>#define LSQ_SIZE (LDQ_SIZE + STQ_SIZE)\<close>\<close>

definition LSQ_SIZE :: "hwdef \<Rightarrow> nat" where
  "LSQ_SIZE hw = nat (LDQ_SIZE hw + STQ_SIZE hw)"

text \<open>The alignment variant of a load or store, which the uop carries in its \<open>cond\<close> field.\<close>

datatype ldst_align = LDST_ALIGN_NORMAL | LDST_ALIGN_LO | LDST_ALIGN_HI

text \<open>
  \<open>BranchPredictorUpdateInfo\<close>: the hint bits of \<open>bptype\<close>, one field each, and the rest
  of the predictor's update slot as an opaque number.
\<close>

record BranchPredictorUpdateInfo =
  bp_hint_cond :: bool
  bp_hint_indirect :: bool
  bp_hint_call :: bool
  bp_hint_ret :: bool
  ripafter :: W64
  stack_recover_idx :: int

text \<open>
  \<open>FetchBufferEntry\<close>, a \<open>TransOp\<close> with its rip and uuid. For loads and stores \<open>cond\<close>
  holds the alignment variant; the condition code of a branch is used by the decoder's
  semantic callback only, which is a parameter below.
\<close>

record uop_t =
  opcode :: nat
  uop_size :: nat
  cond :: ldst_align
  ra :: nat
  rb :: nat
  rc :: nat
  rd :: nat
  rbimm :: W64
  rcimm :: W64
  setflags :: "8 word"
  internal :: bool
  nouserflags :: bool
  som :: bool
  eom :: bool
  bytes :: nat
  riptaken :: W64
  ripseq :: W64
  rip :: W64
  uuid :: W64
  synthop :: nat
  predinfo :: BranchPredictorUpdateInfo

text \<open>The state lists a ROB entry and a physical register can be linked into.\<close>

datatype rob_list =
    rob_free_list | rob_frontend_list | rob_ready_to_dispatch_list
  | rob_dispatched_list int | rob_ready_to_issue_list int | rob_ready_to_store_list int
  | rob_ready_to_load_list int | rob_issued_list int | rob_completed_list int
  | rob_ready_to_writeback_list int | rob_cache_miss_list | rob_ready_to_commit_queue

datatype physreg_list =
    physreg_free_list | physreg_used_list | physreg_ready_list | physreg_written_list
  | physreg_arch_list | physreg_pendingfree_list

text \<open>
  \<open>ReorderBufferEntry\<close>. Pointers and \<open>indexref\<close>s are indices into the arrays of the
  core; \<open>None\<close> is the null reference that \<open>reset\<close> stores into \<open>physreg\<close>.
\<close>

record ReorderBufferEntry =
  current_state_list :: "rob_list option"
  uop :: uop_t
  cycles_left :: int
  forward_cycle :: int
  cluster :: int
  fu :: nat
  lfrqslot :: int
  entry_valid :: bool
  load_store_second_phase :: bool
  iqslot :: int
  physreg :: "nat option"
  operands :: "nat list"
  lsq :: nat

record LoadStoreQueueEntry =
  data :: W64
  addrvalid :: bool
  datavalid :: bool
  invalid :: bool
  physaddr :: W64
  bytemask :: "8 word"
  lsq_rob :: "nat option"
  mbtag :: int
  store :: bool
  lsq_entry_valid :: bool

record PhysicalRegister =
  pr_current_state_list :: "physreg_list option"
  pr_data :: W64
  flags :: W16
  pr_rob :: nat
  archreg :: nat
  all_consumers_sourced_from_bypass :: bool
  refcount :: int

text \<open>
  \<open>IssueQueue\<close>. A \<open>FullyAssociativeTags8bit\<close> array is a list with one cell per slot,
  \<open>None\<close> for a cell whose valid bit is clear; a \<open>bitvec\<close> is a list of booleans.
\<close>

record IssueQueue =
  iq_uopids :: "nat option list"
  iq_tags :: "nat option list list"
  iq_valid :: "bool list"
  iq_issued :: "bool list"
  iq_allready :: "bool list"
  iq_count :: int

text \<open>
  The globals of the core. \<open>'x\<close> is the state of the collaborators the core calls
  (branch predictor, caches and simulated memory, basic block cache). The intrusive
  \<open>StateList\<close>s are the lists of the indices linked into them, head first; the statistics
  counters are one table indexed by the counter's name and, for a histogram, its bucket.
\<close>

record 'x core =
  ROB :: "ReorderBufferEntry list"
  ROB_head :: nat
  ROB_tail :: nat
  ROB_count :: int
  LSQ :: "LoadStoreQueueEntry list"
  LSQ_head :: nat
  LSQ_tail :: nat
  LSQ_count :: int
  loads_in_flight :: int
  stores_in_flight :: int
  physregs :: "PhysicalRegister list"
  specrrt :: "nat list"
  commitrrt :: "nat list"
  rob_states :: "rob_list \<Rightarrow> nat list"
  physreg_states :: "physreg_list \<Rightarrow> nat list"
  issueq :: "IssueQueue list"
  fetchrip :: W64
  stall_frontend :: bool
  waiting_for_icache_fill :: bool
  fetchq :: "uop_t list"
  current_basic_block :: "nat option"
  current_basic_block_transop_index :: nat
  lsap :: "W64 list"
  fu_avail :: W32
  robs_on_fu :: "nat \<Rightarrow> nat"
  stats :: "string \<Rightarrow> nat \<Rightarrow> W64"
  ctx_commitarf :: "nat \<Rightarrow> W64"
  ctx_exception :: W64
  chk_recovery_rip :: W64
  bytes_in_current_insn_to_commit :: nat
  total_uops_committed :: W64
  total_user_insns_committed :: W64
  last_commit_at_cycle :: W64
  sim_cycle :: W64
  ext :: 'x

record IssueInput =
  in_ra :: W64
  in_rb :: W64
  in_rc :: W64
  in_raflags :: W16
  in_rbflags :: W16
  in_rcflags :: W16

text \<open>
  The collaborators of the core, none of which is part of the sources at hand: the
  address space checks, the semantic callback the decoder attached to a uop
  (\<open>call_exec_func\<close>, giving the result and its flags), the branch predictor, the basic
  block cache and the data cache. \<open>issueload\<close> reads simulated memory through host
  pointers and the cache model; it is taken as a parameter too and no claim below
  depends on what it does.
\<close>

record 'x extern =
  asp_fastcheck_write :: "W64 \<Rightarrow> bool"
  asp_check_exec :: "W64 \<Rightarrow> bool"
  call_exec_func :: "uop_t \<Rightarrow> IssueInput \<Rightarrow> W64 \<times> W16"
  issueload :: "nat \<Rightarrow> W64 \<Rightarrow> W64 \<Rightarrow> W64 \<Rightarrow> 'x core \<Rightarrow> (int \<times> 'x core) option"
  annul_lfrq_slot :: "int \<Rightarrow> 'x \<Rightarrow> 'x"
  branchpred_annulras :: "BranchPredictorUpdateInfo \<Rightarrow> 'x \<Rightarrow> 'x"
  branchpred_update :: "BranchPredictorUpdateInfo \<Rightarrow> W64 \<Rightarrow> W64 \<Rightarrow> bool \<Rightarrow> bool \<Rightarrow> bool \<Rightarrow> 'x \<Rightarrow> 'x"
  bbcache_remove :: "W64 \<Rightarrow> 'x \<Rightarrow> 'x"
  add_unaligned_ldst_rip :: "W64 \<Rightarrow> 'x \<Rightarrow> 'x"
  commitstore_unlocked :: "LoadStoreQueueEntry \<Rightarrow> 'x \<Rightarrow> 'x"
  branchpred_updateras :: "BranchPredictorUpdateInfo \<Rightarrow> W64 \<Rightarrow> 'x \<Rightarrow> 'x"

section \<open>Helpers\<close>

text \<open>
  Modelled from the spec: \<open>add_index_modulo\<close>, \<open>floor\<close>, \<open>lowbits\<close> (\<open>globals.h\<close>) are
  missing from the sources. The ROB and the LSQ are circular queues and an index steps
  around the buffer; \<open>floor(x, 8)\<close> is the address of the 8-byte block of \<open>x\<close> and
  \<open>lowbits(x, n)\<close> its low \<open>n\<close> bits.
\<close>

definition add_index_modulo :: "nat \<Rightarrow> int \<Rightarrow> nat \<Rightarrow> nat" where
  "add_index_modulo index increment bufsize =
     (let i = int index + increment;
          i = (if i < 0 then i + int bufsize else i);
          i = (if i \<ge> int bufsize then i - int bufsize else i)
      in nat i)"

definition floor_w :: "W64 \<Rightarrow> W64 \<Rightarrow> W64" where
  "floor_w x a = x AND NOT (a - 1)"

definition lowbits :: "W64 \<Rightarrow> nat \<Rightarrow> W64" where
  "lowbits x n = take_bit n x"

text \<open>
  The loops over a circular queue. A loop of the source that steps an index around the
  buffer until it meets another index or an entry with some property runs forever when
  it never meets it; here each loop has as much fuel as the buffer has entries, after
  which the index is back where it started, and \<open>None\<close> is the loop that does not end.

  \<open>ring_fwd n fuel i stop\<close>: the indices \<open>for (j = i; j != stop; j = add_index_modulo(j, +1, n))\<close>
  visits. \<open>ring_bwd_incl n fuel i stop\<close>: those of
  \<open>j = i; for (;;) { ...; if (j == stop) break; j = add_index_modulo(j, -1, n); }\<close>.
  \<open>ring_find P n inc fuel i stop\<close>: the first index with \<open>P\<close> that
  \<open>for (j = i; j != stop; j = add_index_modulo(j, inc, n)) { if (P j) break; }\<close> meets
  (\<open>Some None\<close> when it reaches \<open>stop\<close>). \<open>ring_search P n inc fuel i\<close>:
  \<open>while (!P(j)) j = add_index_modulo(j, inc, n)\<close>.
\<close>

fun ring_fwd :: "nat \<Rightarrow> nat \<Rightarrow> nat \<Rightarrow> nat \<Rightarrow> nat list option" where
  "ring_fwd n 0 i stop = (if i = stop then Some [] else None)"
| "ring_fwd n (Suc k) i stop =
     (if i = stop then Some []
      else map_option ((#) i) (ring_fwd n k (add_index_modulo i 1 n) stop))"

fun ring_bwd_incl :: "nat \<Rightarrow> nat \<Rightarrow> nat \<Rightarrow> nat \<Rightarrow> nat list option" where
  "ring_bwd_incl n 0 i stop = None"
| "ring_bwd_incl n (Suc k) i stop =
     (if i = stop then Some [i]
      else map_option ((#) i) (ring_bwd_incl n k (add_index_modulo i (- 1) n) stop))"

fun ring_find :: "(nat \<Rightarrow> bool) \<Rightarrow> nat \<Rightarrow> int \<Rightarrow> nat \<Rightarrow> nat \<Rightarrow> nat \<Rightarrow> nat option option" where
  "ring_find P n inc 0 i stop = (if i = stop then Some None else None)"
| "ring_find P n inc (Suc k) i stop =
     (if i = stop then Some None
      else if P i then Some (Some i)
      else ring_find P n inc k (add_index_modulo i inc n) stop)"

fun ring_search :: "(nat \<Rightarrow> bool) \<Rightarrow> nat \<Rightarrow> int \<Rightarrow> nat \<Rightarrow> nat \<Rightarrow> nat option" where
  "ring_search P n inc 0 i = (if P i then Some i else None)"
| "ring_search P n inc (Suc k) i =
     (if P i then Some i else ring_search P n inc k (add_index_modulo i inc n))"

text \<open>The statistics counters: \<open>name[bucket] += k\<close>, and \<open>name++\<close> for a plain counter.\<close>

definition add_stat :: "string \<Rightarrow> nat \<Rightarrow> W64 \<Rightarrow> 'x core \<Rightarrow> 'x core" where
  "add_stat name bucket k s = s\<lparr>stats := (stats s)(name := (stats s name)(bucket := stats s name bucket + k))\<rparr>"

definition bump :: "string \<Rightarrow> 'x core \<Rightarrow> 'x core" where
  "bump name s = add_stat name 0 1 s"

definition of_bool_w :: "bool \<Rightarrow> W64" where
  "of_bool_w b = (if b then 1 else 0)"

text \<open>An update of one entry of the ROB, the LSQ or the physical register file.\<close>

definition upd_rob :: "nat \<Rightarrow> (ReorderBufferEntry \<Rightarrow> ReorderBufferEntry) \<Rightarrow> 'x core \<Rightarrow> 'x core" where
  "upd_rob i f s = s\<lparr>ROB := (ROB s)[i := f (ROB s ! i)]\<rparr>"

definition upd_lsq :: "nat \<Rightarrow> (LoadStoreQueueEntry \<Rightarrow> LoadStoreQueueEntry) \<Rightarrow> 'x core \<Rightarrow> 'x core" where
  "upd_lsq i f s = s\<lparr>LSQ := (LSQ s)[i := f (LSQ s ! i)]\<rparr>"

definition upd_physreg :: "nat \<Rightarrow> (PhysicalRegister \<Rightarrow> PhysicalRegister) \<Rightarrow> 'x core \<Rightarrow> 'x core" where
  "upd_physreg i f s = s\<lparr>physregs := (physregs s)[i := f (physregs s ! i)]\<rparr>"

section \<open>State lists, physical registers, queues\<close>

text \<open>
  \<open>ReorderBufferEntry::changestate\<close> and \<open>PhysicalRegister::changestate\<close>: unlink the entry
  from the list it is on, if any, and link it at the tail of the new one.
\<close>

definition rob_changestate :: "nat \<Rightarrow> rob_list \<Rightarrow> 'x core \<Rightarrow> 'x core" where
  "rob_changestate i newqueue s =
     (let L = rob_states s;
          L1 = (case current_state_list (ROB s ! i) of
                  None \<Rightarrow> L
                | Some c \<Rightarrow> L(c := remove1 i (L c)));
          L2 = L1(newqueue := L1 newqueue @ [i])
      in upd_rob i (\<lambda>r. r\<lparr>current_state_list := Some newqueue\<rparr>) (s\<lparr>rob_states := L2\<rparr>))"

definition physreg_changestate :: "nat \<Rightarrow> physreg_list \<Rightarrow> 'x core \<Rightarrow> 'x core" where
  "physreg_changestate i newqueue s =
     (let L = physreg_states s;
          L1 = (case pr_current_state_list (physregs s ! i) of
                  None \<Rightarrow> L
                | Some c \<Rightarrow> L(c := remove1 i (L c)));
          L2 = L1(newqueue := L1 newqueue @ [i])
      in upd_physreg i (\<lambda>r. r\<lparr>pr_current_state_list := Some newqueue\<rparr>) (s\<lparr>physreg_states := L2\<rparr>))"

text \<open>
  \<open>PhysicalRegister::addref\<close>, \<open>unref\<close> (and \<open>addspecref\<close>, \<open>unspecref\<close>, \<open>addcommitref\<close>,
  \<open>uncommitref\<close>, which only call them), on the register with index \<open>i\<close>. \<open>nonnull()\<close> is
  \<open>index() != PHYS_REG_NULL\<close>. Without \<open>ENABLE_CHECKS\<close>, \<open>assert(x)\<close> is \<open>(x)\<close> and does
  nothing.
\<close>

definition nonnull :: "hwdef \<Rightarrow> nat \<Rightarrow> bool" where
  "nonnull hw i = (i \<noteq> PHYS_REG_NULL hw)"

definition addref :: "hwdef \<Rightarrow> nat \<Rightarrow> 'x core \<Rightarrow> 'x core" where
  "addref hw i s =
     (if nonnull hw i then upd_physreg i (\<lambda>r. r\<lparr>refcount := w16s (refcount r + 1)\<rparr>) s else s)"

definition unref :: "hwdef \<Rightarrow> nat \<Rightarrow> 'x core \<Rightarrow> 'x core" where
  "unref hw i s =
     (if nonnull hw i then upd_physreg i (\<lambda>r. r\<lparr>refcount := w16s (refcount r - 1)\<rparr>) s else s)"

definition referenced :: "PhysicalRegister \<Rightarrow> bool" where
  "referenced r = (refcount r > 0)"

text \<open>\<open>PhysicalRegister::free\<close>\<close>

definition physreg_free :: "nat \<Rightarrow> 'x core \<Rightarrow> 'x core" where
  "physreg_free i s =
     upd_physreg i (\<lambda>r. r\<lparr>pr_rob := 0, refcount := 0, all_consumers_sourced_from_bypass := True\<rparr>)
       (physreg_changestate i physreg_free_list s)"

definition pr_valid :: "hwdef \<Rightarrow> PhysicalRegister \<Rightarrow> bool" where
  "pr_valid hw r = (flags r AND FLAG_INV hw = 0)"

definition pr_ready :: "hwdef \<Rightarrow> PhysicalRegister \<Rightarrow> bool" where
  "pr_ready hw r = (flags r AND FLAG_WAIT hw = 0)"

text \<open>\<open>ReorderBufferEntry::reset\<close> and \<open>LoadStoreQueueEntry::reset\<close>\<close>

definition rob_reset :: "ReorderBufferEntry \<Rightarrow> ReorderBufferEntry" where
  "rob_reset r = r\<lparr>entry_valid := False, cycles_left := 0, physreg := None, lfrqslot := - 1,
                   lsq := 0, load_store_second_phase := False\<rparr>"

definition lsq_reset :: "LoadStoreQueueEntry \<Rightarrow> LoadStoreQueueEntry" where
  "lsq_reset l = l\<lparr>lsq_rob := None, lsq_entry_valid := False, physaddr := 0, bytemask := 0,
                   addrvalid := False, datavalid := False, mbtag := - 1, invalid := False,
                   data := 0\<rparr>"

text \<open>
  \<open>Queue<ReorderBufferEntry, ROB_SIZE>::prepfree\<close> and
  \<open>Queue<LoadStoreQueueEntry, LSQ_SIZE>::prepfree\<close>, the hooks the queue calls on an entry
  it frees.
\<close>

definition ROB_prepfree :: "nat \<Rightarrow> 'x core \<Rightarrow> 'x core" where
  "ROB_prepfree i s = upd_rob i rob_reset s"

definition LSQ_prepfree :: "nat \<Rightarrow> 'x core \<Rightarrow> 'x core" where
  "LSQ_prepfree i s =
     upd_lsq i lsq_reset
       (s\<lparr>loads_in_flight := loads_in_flight s - (if \<not> store (LSQ s ! i) then 1 else 0),
          stores_in_flight := stores_in_flight s - (if store (LSQ s ! i) then 1 else 0)\<rparr>)"

text \<open>
  Modelled from the spec: the \<open>Queue\<close> template (\<open>globals.h\<close>) is missing from the
  sources. The ROB and the LSQ are fixed-capacity circular queues, entries enter at the
  tail at rename, leave at the head at commit ("Free the LSQ entry", "Move the ROB to
  free") and are taken back from the tail when annulled ("endidx = tail - 1", "annul its
  LSQ entry if any"); freeing an entry runs its \<open>prepfree\<close> hook.
\<close>

definition ROB_annul :: "hwdef \<Rightarrow> nat \<Rightarrow> 'x core \<Rightarrow> 'x core" where
  "ROB_annul hw i s =
     (let s1 = ROB_prepfree i s
      in s1\<lparr>ROB_count := ROB_count s1 - 1,
             ROB_tail := add_index_modulo (ROB_tail s1) (- 1) (ROB_SIZE hw)\<rparr>)"

definition ROB_commit :: "hwdef \<Rightarrow> nat \<Rightarrow> 'x core \<Rightarrow> 'x core" where
  "ROB_commit hw i s =
     (let s1 = ROB_prepfree i s
      in s1\<lparr>ROB_count := ROB_count s1 - 1,
             ROB_head := add_index_modulo (ROB_head s1) 1 (ROB_SIZE hw)\<rparr>)"

definition LSQ_annul :: "hwdef \<Rightarrow> nat \<Rightarrow> 'x core \<Rightarrow> 'x core" where
  "LSQ_annul hw i s =
     (let s1 = LSQ_prepfree i s
      in s1\<lparr>LSQ_count := LSQ_count s1 - 1,
             LSQ_tail := add_index_modulo (LSQ_tail s1) (- 1) (LSQ_SIZE hw)\<rparr>)"

definition LSQ_commit :: "hwdef \<Rightarrow> nat \<Rightarrow> 'x core \<Rightarrow> 'x core" where
  "LSQ_commit hw i s =
     (let s1 = LSQ_prepfree i s
      in s1\<lparr>LSQ_count := LSQ_count s1 - 1,
             LSQ_head := add_index_modulo (LSQ_head s1) 1 (LSQ_SIZE hw)\<rparr>)"

section \<open>Issue queues\<close>

text \<open>
  Modelled from the spec: \<open>FullyAssociativeTags8bit\<close> and \<open>bitvec\<close> (\<open>logic.h\<close>) are
  missing from the sources. A tag array holds one 8-bit tag per slot with a valid bit;
  \<open>search\<close> gives the first slot holding a tag or -1, \<open>invalidate\<close> clears every slot
  holding it, and "slots are collapsible: removing a slot compacts the tag arrays".
\<close>

definition tags_search :: "nat \<Rightarrow> nat option list \<Rightarrow> int" where
  "tags_search t xs = (case filter (\<lambda>i. xs ! i = Some t) [0..<length xs] of
                         [] \<Rightarrow> - 1 | i # _ \<Rightarrow> int i)"

definition tags_collapse :: "nat \<Rightarrow> nat option list \<Rightarrow> nat option list" where
  "tags_collapse slot xs = (if slot < length xs then take slot xs @ drop (Suc slot) xs @ [None] else xs)"

definition tags_invalidate :: "nat \<Rightarrow> nat option list \<Rightarrow> nat option list" where
  "tags_invalidate t xs = map (\<lambda>c. if c = Some t then None else c) xs"

definition bitvec_remove :: "nat \<Rightarrow> bool list \<Rightarrow> bool list" where
  "bitvec_remove slot bs = (if slot < length bs then take slot bs @ drop (Suc slot) bs @ [False] else bs)"

text \<open>\<open>IssueQueue::remove\<close>, \<open>release\<close>, \<open>annuluop\<close>, \<open>broadcast\<close> and the two \<open>replay\<close>s.\<close>

definition iq_remove :: "nat \<Rightarrow> IssueQueue \<Rightarrow> IssueQueue" where
  "iq_remove slot q =
     q\<lparr>iq_uopids := tags_collapse slot (iq_uopids q),
       iq_tags := map (tags_collapse slot) (iq_tags q),
       iq_valid := bitvec_remove slot (iq_valid q),
       iq_issued := bitvec_remove slot (iq_issued q),
       iq_allready := bitvec_remove slot (iq_allready q),
       iq_count := iq_count q - 1\<rparr>"

definition iq_release :: "int \<Rightarrow> IssueQueue \<Rightarrow> IssueQueue" where
  "iq_release slot q = iq_remove (nat slot) q"

definition iq_slotof :: "nat \<Rightarrow> IssueQueue \<Rightarrow> int" where
  "iq_slotof uopid q = tags_search (uopid mod 256) (iq_uopids q)"

definition iq_annuluop :: "nat \<Rightarrow> IssueQueue \<Rightarrow> IssueQueue" where
  "iq_annuluop uopid q =
     (let slot = iq_slotof uopid q in if slot < 0 then q else iq_remove (nat slot) q)"

definition iq_broadcast :: "nat \<Rightarrow> IssueQueue \<Rightarrow> IssueQueue" where
  "iq_broadcast uopid q = q\<lparr>iq_tags := map (tags_invalidate (uopid mod 256)) (iq_tags q)\<rparr>"

definition iq_replay_slot :: "int \<Rightarrow> IssueQueue \<Rightarrow> IssueQueue" where
  "iq_replay_slot slot q = q\<lparr>iq_issued := (iq_issued q)[nat slot := False]\<rparr>"

definition iq_replay :: "int \<Rightarrow> nat list \<Rightarrow> bool list \<Rightarrow> IssueQueue \<Rightarrow> IssueQueue" where
  "iq_replay slot uopids preready q =
     q\<lparr>iq_issued := (iq_issued q)[nat slot := False],
       iq_tags := map (\<lambda>operand.
                    if preready ! operand
                    then (iq_tags q ! operand)[nat slot := None]
                    else (iq_tags q ! operand)[nat slot := Some (uopids ! operand mod 256)])
                  [0..<length (iq_tags q)]\<rparr>"

text \<open>
  \<open>issueq_operation_on_cluster(cluster, expr)\<close> (\<open>ooohwdef.h\<close>) runs \<open>expr\<close> on the issue
  queue of the cluster, and on none when the cluster number names no cluster.
\<close>

definition issueq_operation_on_cluster :: "int \<Rightarrow> (IssueQueue \<Rightarrow> IssueQueue) \<Rightarrow> 'x core \<Rightarrow> 'x core" where
  "issueq_operation_on_cluster c f s =
     (if 0 \<le> c \<and> nat c < length (issueq s)
      then s\<lparr>issueq := (issueq s)[nat c := f (issueq s ! nat c)]\<rparr> else s)"

section \<open>Fetch unit and alias predictor\<close>

text \<open>\<open>reset_fetch_unit\<close>; the pointer into the current basic block goes with the block.\<close>

definition reset_fetch_unit :: "W64 \<Rightarrow> 'x core \<Rightarrow> 'x core" where
  "reset_fetch_unit realrip s =
     s\<lparr>fetchrip := realrip, stall_frontend := False, waiting_for_icache_fill := False,
       fetchq := [], current_basic_block := None, current_basic_block_transop_index := 0\<rparr>"

text \<open>
  Modelled from the spec: \<open>FullyAssociativeTags<W64, 16>\<close> (\<open>logic.h\<close>) is missing from
  the sources. The LSAP is "a small fully-associative load/store alias predictor", "a
  small associative cache of load RIPs"; \<open>select\<close> makes the tag present, most recently
  used first, dropping the least recently used of 16.
\<close>

definition lsap_select :: "W64 \<Rightarrow> W64 list \<Rightarrow> W64 list" where
  "lsap_select tag ts = tag # take 15 (removeAll tag ts)"

section \<open>Replay, pseudo-commit and annulment\<close>

definition MAX_OPERANDS :: nat where "MAX_OPERANDS = 4"
definition RA :: nat where "RA = 0"
definition RB :: nat where "RB = 1"
definition RC :: nat where "RC = 2"
definition RS :: nat where "RS = 3"

definition ISSUE_COMPLETED :: int where "ISSUE_COMPLETED = 1"
definition ISSUE_NEEDS_REPLAY :: int where "ISSUE_NEEDS_REPLAY = 0"
definition ISSUE_MISSPECULATED :: int where "ISSUE_MISSPECULATED = - 1"

datatype commit_result =
    COMMIT_RESULT_NONE | COMMIT_RESULT_OK | COMMIT_RESULT_EXCEPTION
  | COMMIT_RESULT_BARRIER | COMMIT_RESULT_STOP

text \<open>\<open>ReorderBufferEntry::get_ready_to_issue_list\<close>\<close>

definition get_ready_to_issue_list :: "hwdef \<Rightarrow> ReorderBufferEntry \<Rightarrow> rob_list" where
  "get_ready_to_issue_list hw r =
     (if isload hw (opcode (uop r)) then rob_ready_to_load_list (cluster r)
      else if isstore hw (opcode (uop r)) then rob_ready_to_store_list (cluster r)
      else rob_ready_to_issue_list (cluster r))"

text \<open>
  The body of the operand loop of \<open>replay\<close> (and of \<open>find_sources\<close>): the tag to wait for
  and the \<open>preready\<close> bit of the operand held in physical register \<open>p\<close>.
\<close>

definition operand_source :: "'x core \<Rightarrow> nat \<Rightarrow> nat \<times> bool" where
  "operand_source s p =
     (if pr_current_state_list (physregs s ! p) = Some physreg_used_list
      then (pr_rob (physregs s ! p), False) else (0, True))"

text \<open>\<open>ReorderBufferEntry::replay\<close>, of the ROB entry with index \<open>idx\<close>.\<close>

definition replay :: "hwdef \<Rightarrow> nat \<Rightarrow> 'x core \<Rightarrow> 'x core" where
  "replay hw idx s =
     (let r = ROB s ! idx;
          srcs = map (\<lambda>operand. operand_source s (operands r ! operand)) [0..<MAX_OPERANDS];
          uopids = map fst srcs;
          preready = map snd srcs;
          operands_still_needed = length (filter Not preready);
          s1 = (if operands_still_needed \<noteq> 0
                then rob_changestate idx (rob_dispatched_list (cluster r)) s
                else rob_changestate idx (get_ready_to_issue_list hw r) s)
      in issueq_operation_on_cluster (cluster r) (iq_replay (iqslot r) uopids preready) s1)"

text \<open>
  \<open>specrrt[a]->unspecref(a); specrrt[a] = physreg; specrrt[a]->addspecref(a)\<close>, and the
  same on the commit table.
\<close>

definition specrrt_assign :: "hwdef \<Rightarrow> nat \<Rightarrow> nat \<Rightarrow> 'x core \<Rightarrow> 'x core" where
  "specrrt_assign hw a p s =
     (let s1 = unref hw (specrrt s ! a) s;
          s2 = s1\<lparr>specrrt := (specrrt s1)[a := p]\<rparr>
      in addref hw p s2)"

definition commitrrt_assign :: "hwdef \<Rightarrow> nat \<Rightarrow> nat \<Rightarrow> 'x core \<Rightarrow> 'x core" where
  "commitrrt_assign hw a p s =
     (let s1 = unref hw (commitrrt s ! a) s;
          s2 = s1\<lparr>commitrrt := (commitrrt s1)[a := p]\<rparr>
      in addref hw p s2)"

text \<open>\<open>ReorderBufferEntry::pseudocommit\<close>\<close>

definition pseudocommit :: "hwdef \<Rightarrow> nat \<Rightarrow> 'x core \<Rightarrow> commit_result \<times> 'x core" where
  "pseudocommit hw idx s =
     (let r = ROB s ! idx;
          u = uop r;
          p = the (physreg r);
          s1 = (if archdest_can_commit hw (rd u) then specrrt_assign hw (rd u) p s else s);
          s2 = (if \<not> nouserflags u then
                  (let t1 = (if setflags u AND SETFLAG_ZF hw \<noteq> 0 then specrrt_assign hw (REG_zf hw) p s1 else s1);
                       t2 = (if setflags u AND SETFLAG_CF hw \<noteq> 0 then specrrt_assign hw (REG_cf hw) p t1 else t1)
                   in (if setflags u AND SETFLAG_OF hw \<noteq> 0 then specrrt_assign hw (REG_of hw) p t2 else t2))
                else s1)
      in (if isbarrier hw (opcode u) then COMMIT_RESULT_BARRIER else COMMIT_RESULT_OK, s2))"

text \<open>Pass 1 of \<open>annul\<close>, for one ROB entry: take it out of its cluster's issue queue.\<close>

definition annul_issueq :: "nat \<Rightarrow> 'x core \<Rightarrow> 'x core" where
  "annul_issueq i s =
     upd_rob i (\<lambda>r. r\<lparr>iqslot := - 1\<rparr>)
       (issueq_operation_on_cluster (cluster (ROB s ! i)) (iq_annuluop i) s)"

text \<open>Pass 2 of \<open>annul\<close>, first half: the speculative table becomes a copy of the committed one.\<close>

definition restore_specrrt :: "hwdef \<Rightarrow> 'x core \<Rightarrow> 'x core" where
  "restore_specrrt hw s =
     (let s1 = fold (\<lambda>i t. unref hw (specrrt t ! i) t) [0..<TRANSREG_COUNT hw] s;
          s2 = s1\<lparr>specrrt := commitrrt s1\<rparr>
      in fold (\<lambda>i t. addref hw (specrrt t ! i) t) [0..<TRANSREG_COUNT hw] s2)"

text \<open>
  Pass 3 of \<open>annul\<close>, for one ROB entry: drop its operand references, free its physical
  register, its LSQ entry and its load fill request, undo its return address stack
  update, and free the entry. \<open>isclass(opcode, OPCLASS_LOAD|OPCLASS_STORE)\<close> is
  \<open>isload\<close> or \<open>isstore\<close>.
\<close>

definition annul_rob :: "hwdef \<Rightarrow> 'x extern \<Rightarrow> nat \<Rightarrow> 'x core \<Rightarrow> 'x core" where
  "annul_rob hw X i s =
     (let annulrob = ROB s ! i;
          u = uop annulrob;
          s1 = fold (\<lambda>j t. unref hw (operands annulrob ! j) t) [0..<MAX_OPERANDS] s;
          s2 = physreg_free (the (physreg annulrob)) s1;
          s3 = (if isload hw (opcode u) \<or> isstore hw (opcode u) then LSQ_annul hw (lsq annulrob) s2 else s2);
          s4 = (if lfrqslot annulrob \<ge> 0
                then s3\<lparr>ext := annul_lfrq_slot X (lfrqslot annulrob) (ext s3)\<rparr> else s3);
          s5 = (if isbranch hw (opcode u) \<and> (bp_hint_call (predinfo u) \<or> bp_hint_ret (predinfo u))
                then s4\<lparr>ext := branchpred_annulras X (predinfo u) (ext s4)\<rparr> else s4);
          s6 = ROB_annul hw i s5
      in rob_changestate i rob_free_list s6)"

text \<open>
  \<open>ReorderBufferEntry::annul\<close>, called on the ROB entry with index \<open>idx\<close>: the recovery
  rip it returns and the state it leaves. The two \<open>while\<close> loops of pass 0 look for the
  SOM and the EOM uop around \<open>idx\<close>.
\<close>

definition annul :: "hwdef \<Rightarrow> 'x extern \<Rightarrow> bool \<Rightarrow> nat \<Rightarrow> 'x core \<Rightarrow> (W64 \<times> 'x core) option" where
  "annul hw X keep_misspec_uop idx s =
     (case ring_search (\<lambda>j. som (uop (ROB s ! j))) (ROB_SIZE hw) (- 1) (ROB_SIZE hw) idx of
        None \<Rightarrow> None
      | Some somidx \<Rightarrow>
     (case ring_search (\<lambda>j. eom (uop (ROB s ! j))) (ROB_SIZE hw) 1 (ROB_SIZE hw) idx of
        None \<Rightarrow> None
      | Some eomidx \<Rightarrow>
     (let startidx = (if keep_misspec_uop then add_index_modulo eomidx 1 (ROB_SIZE hw) else somidx)
      in if startidx = ROB_tail s then Some (rip (uop (ROB s ! idx)), s)
         else
     (let endidx = add_index_modulo (ROB_tail s) (- 1) (ROB_SIZE hw)
      in case ring_bwd_incl (ROB_SIZE hw) (ROB_SIZE hw) endidx startidx of
           None \<Rightarrow> None
         | Some idxs \<Rightarrow>
     (let s1 = fold annul_issueq idxs s;
          s2 = restore_specrrt hw s1
      in case ring_fwd (ROB_SIZE hw) (ROB_SIZE hw) (ROB_head s2) startidx of
           None \<Rightarrow> None
         | Some walk \<Rightarrow>
     (let s3 = fold (\<lambda>i t. snd (pseudocommit hw i t)) walk s2;
          s4 = fold (annul_rob hw X) idxs s3
      in Some (if keep_misspec_uop then riptaken (uop (ROB s4 ! startidx))
               else rip (uop (ROB s4 ! startidx)), s4)))))))"

definition annul_after :: "hwdef \<Rightarrow> 'x extern \<Rightarrow> nat \<Rightarrow> 'x core \<Rightarrow> (W64 \<times> 'x core) option" where
  "annul_after hw X idx s = annul hw X True idx s"

definition annul_after_and_including :: "hwdef \<Rightarrow> 'x extern \<Rightarrow> nat \<Rightarrow> 'x core \<Rightarrow> (W64 \<times> 'x core) option" where
  "annul_after_and_including hw X idx s = annul hw X False idx s"

section \<open>Store issue\<close>

text \<open>
  \<open>check_access_alignment\<close>, for a store: \<open>top\<close> is the write map of the address space and
  \<open>asp.fastcheck(addr, top)\<close> is \<open>asp_fastcheck_write\<close>.
\<close>

definition check_access_alignment ::
  "hwdef \<Rightarrow> 'x extern \<Rightarrow> W64 \<Rightarrow> bool \<Rightarrow> nat \<Rightarrow> bool \<Rightarrow> W64 \<Rightarrow> W64" where
  "check_access_alignment hw X addr annul_hi sizeshift is_internal exception =
     (if lowbits addr sizeshift \<noteq> 0 then EXCEPTION_UnalignedAccess hw
      else if annul_hi \<or> is_internal then 0
      else if asp_fastcheck_write X addr then 0 else exception)"

text \<open>
  The address computation at the head of \<open>issuestore\<close>: \<open>origaddr\<close>, \<open>addr\<close> and the
  \<open>annul\<close> flag, from the operand values \<open>ra\<close> and \<open>rb\<close>.
\<close>

definition issuestore_addr :: "hwdef \<Rightarrow> uop_t \<Rightarrow> W64 \<Rightarrow> W64 \<Rightarrow> W64 \<times> W64 \<times> bool" where
  "issuestore_addr hw u va vb =
     (let raddr = (va + vb) AND virt_addr_mask hw;
          origaddr = raddr
      in case cond u of
           LDST_ALIGN_NORMAL \<Rightarrow> (origaddr, lowbits raddr (VIRT_ADDR_BITS hw), False)
         | LDST_ALIGN_LO \<Rightarrow> (origaddr, lowbits (floor_w raddr 8) (VIRT_ADDR_BITS hw), False)
         | LDST_ALIGN_HI \<Rightarrow>
             (let raddr1 = floor_w raddr 8;
                  annul_hi = (floor_w (origaddr + (push_bit (uop_size u) 1 - 1)) 8 = raddr1)
              in (origaddr, lowbits (raddr1 + 8) (VIRT_ADDR_BITS hw), annul_hi)))"

text \<open>
  The value of the local \<open>exception\<close> of \<open>issuestore\<close>.
\<close>

definition issuestore_exception :: "hwdef \<Rightarrow> 'x extern \<Rightarrow> uop_t \<Rightarrow> W64 \<Rightarrow> W64 \<Rightarrow> W64" where
  "issuestore_exception hw X u va vb =
     (let (origaddr, addr, annul_hi) = issuestore_addr hw u va vb
      in check_access_alignment hw X addr annul_hi (uop_size u) (internal u)
           (EXCEPTION_PageFaultOnWrite hw))"

text \<open>
  Modelled from the spec: \<open>foreach_backward_before\<close> and \<open>foreach_forward_after\<close>
  (\<open>globals.h\<close>) are missing from the sources. The store scans the "LSQ backward from this
  entry for the most recent store to the same 8-byte block (or any store with unresolved
  address)", down to the head of the queue, and "forward from this entry for any load
  with valid address to the same 8-byte block", up to the tail.
\<close>

definition store_scan_backward :: "hwdef \<Rightarrow> nat \<Rightarrow> 'x core \<Rightarrow> nat option option" where
  "store_scan_backward hw li s =
     (if li = LSQ_head s then Some None
      else ring_find
             (\<lambda>i. store (LSQ s ! i) \<and>
                  (\<not> addrvalid (LSQ s ! i) \<or>
                   (addrvalid (LSQ s ! i) \<and> physaddr (LSQ s ! i) = physaddr (LSQ s ! li))))
             (LSQ_SIZE hw) (- 1) (LSQ_SIZE hw)
             (add_index_modulo li (- 1) (LSQ_SIZE hw))
             (add_index_modulo (LSQ_head s) (- 1) (LSQ_SIZE hw)))"

definition load_scan_forward :: "hwdef \<Rightarrow> nat \<Rightarrow> 'x core \<Rightarrow> nat option option" where
  "load_scan_forward hw li s =
     ring_find
       (\<lambda>i. \<not> store (LSQ s ! i) \<and> addrvalid (LSQ s ! i) \<and> physaddr (LSQ s ! i) = physaddr (LSQ s ! li))
       (LSQ_SIZE hw) 1 (LSQ_SIZE hw)
       (add_index_modulo li 1 (LSQ_SIZE hw)) (LSQ_tail s)"

text \<open>
  Modelled from the spec: \<open>mux64\<close> and \<open>expand_8bit_to_64bit_lut\<close> (\<open>globals.h\<close>) are
  missing from the sources. The store merges its data, "shifted and masked by bytemask",
  "with any forwarded bytes" of the earlier store: the bytes the mask selects come from
  the new data, the others from the store it inherits from.
\<close>

definition expand_8bit_to_64bit :: "8 word \<Rightarrow> W64" where
  "expand_8bit_to_64bit m = fold (\<lambda>i w. if bit m i then w OR push_bit (8 * i) 255 else w) [0..<8] 0"

definition mux64 :: "W64 \<Rightarrow> W64 \<Rightarrow> W64 \<Rightarrow> W64" where
  "mux64 sel v0 v1 = (NOT sel AND v0) OR (sel AND v1)"

text \<open>The three ways \<open>issuestore\<close> ends after the alignment and page checks.\<close>

definition issuestore_replay :: "hwdef \<Rightarrow> nat \<Rightarrow> nat option \<Rightarrow> bool \<Rightarrow> 'x core \<Rightarrow> 'x core" where
  "issuestore_replay hw idx sfra rcready s =
     (let r = ROB s ! idx;
          s1 = unref hw (operands r ! RS) s;
          newrs = (case sfra of
                     None \<Rightarrow> PHYS_REG_NULL hw
                   | Some i \<Rightarrow> the (physreg (ROB s1 ! the (lsq_rob (LSQ s1 ! i)))));
          s2 = upd_rob idx (\<lambda>r. r\<lparr>operands := (operands r)[RS := newrs]\<rparr>) s1;
          s3 = addref hw newrs s2;
          s4 = replay hw idx s3;
          s5 = upd_rob idx (\<lambda>r. r\<lparr>load_store_second_phase := True\<rparr>) s4;
          sa = (case sfra of None \<Rightarrow> False | Some i \<Rightarrow> \<not> addrvalid (LSQ s5 ! i));
          sd = (case sfra of None \<Rightarrow> False | Some i \<Rightarrow> \<not> datavalid (LSQ s5 ! i));
          sf = (sfra \<noteq> None)
      in add_stat ''store_issue_replay_sfr_data_not_ready'' 0 (of_bool_w (rcready \<and> sf \<and> \<not> sa \<and> sd))
        (add_stat ''store_issue_replay_sfr_addr_not_ready'' 0 (of_bool_w (rcready \<and> sf \<and> sa \<and> \<not> sd))
        (add_stat ''store_issue_replay_sfr_addr_and_data_not_ready'' 0 (of_bool_w (rcready \<and> sf \<and> sa \<and> sd))
        (add_stat ''store_issue_replay_sfr_data_and_data_to_store_not_ready'' 0 (of_bool_w (\<not> rcready \<and> sf \<and> \<not> sa \<and> sd))
        (add_stat ''store_issue_replay_sfr_addr_and_data_to_store_not_ready'' 0 (of_bool_w (\<not> rcready \<and> sf \<and> sa))
        (add_stat ''store_issue_replay_sfr_addr_and_data_and_data_to_store_not_ready'' 0 (of_bool_w (\<not> rcready \<and> sf \<and> sa \<and> sd))
           s5))))))"

text \<open>
  The store found a later load to the same block: the LSQ entry of the store as
  \<open>issuestore\<close> marks it, before it annuls.
\<close>

definition mark_aliased :: "hwdef \<Rightarrow> LoadStoreQueueEntry \<Rightarrow> LoadStoreQueueEntry" where
  "mark_aliased hw l = l\<lparr>invalid := True, data := EXCEPTION_LoadStoreAliasing hw, datavalid := True\<rparr>"

definition issuestore_aliased :: "hwdef \<Rightarrow> 'x extern \<Rightarrow> nat \<Rightarrow> nat \<Rightarrow> 'x core \<Rightarrow> (int \<times> 'x core) option" where
  "issuestore_aliased hw X idx ldbuf s =
     (let r = ROB s ! idx;
          s1 = upd_lsq (lsq r) (mark_aliased hw) s;
          s2 = s1\<lparr>lsap := lsap_select (rip (uop (ROB s1 ! the (lsq_rob (LSQ s1 ! ldbuf))))) (lsap s1)\<rparr>
      in case annul_after_and_including hw X idx s2 of
           None \<Rightarrow> None
         | Some (recoveryrip, s3) \<Rightarrow>
             Some (ISSUE_MISSPECULATED,
                   bump ''store_issue_ordering'' (reset_fetch_unit (rip (uop (ROB s3 ! idx))) s3)))"

text \<open>
  \<open>rc >>= n\<close> on the 64-bit value to store. For the high half of a store that starts on
  an 8-byte boundary the source shifts by \<open>n = 64\<close>, which C++ leaves undefined; the
  x86-64 shift instruction the compiler emits for a variable count takes the count modulo
  64, so that the value comes out unshifted.
\<close>

definition shr64 :: "W64 \<Rightarrow> nat \<Rightarrow> W64" where
  "shr64 w n = drop_bit (n mod 64) w"

definition issuestore_merge :: "nat \<Rightarrow> nat option \<Rightarrow> W64 \<Rightarrow> W64 \<Rightarrow> 'x core \<Rightarrow> 'x core" where
  "issuestore_merge idx sfra origaddr vc s =
     (let r = ROB s ! idx;
          u = uop r;
          k = unat (lowbits origaddr 3);
          m32 = (push_bit ((2::nat) ^ uop_size u) 1 - 1 :: W32);
          (bm, vc1) = (case cond u of
                         LDST_ALIGN_HI \<Rightarrow> (ucast (drop_bit (8 - k) m32) :: 8 word, shr64 vc (8 * (8 - k)))
                       | _ \<Rightarrow> (ucast (push_bit k m32) :: 8 word, push_bit (8 * k) vc));
          s1 = upd_lsq (lsq r)
                 (\<lambda>l. l\<lparr>invalid := False,
                        data := (case sfra of
                                   None \<Rightarrow> vc1
                                 | Some i \<Rightarrow> mux64 (expand_8bit_to_64bit bm) (data (LSQ s ! i)) vc1),
                        bytemask := (case sfra of None \<Rightarrow> bm | Some i \<Rightarrow> bytemask (LSQ s ! i) OR bm),
                        datavalid := True\<rparr>) s;
          s2 = add_stat ''store_forward_from_sfr'' 0 (of_bool_w (sfra \<noteq> None))
                 (add_stat ''store_forward_from_zero'' 0 (of_bool_w (sfra = None)) s1);
          s3 = upd_rob idx (\<lambda>r. r\<lparr>load_store_second_phase := True\<rparr>) s2
      in bump ''store_issue_complete'' s3)"

text \<open>
  The head of \<open>issuestore\<close>: the LSQ entry of the store gets its address, marked valid,
  with the data not valid yet, and the store is counted by type and size.
\<close>

definition issuestore_resolve :: "hwdef \<Rightarrow> nat \<Rightarrow> W64 \<Rightarrow> W64 \<Rightarrow> 'x core \<Rightarrow> 'x core" where
  "issuestore_resolve hw idx va vb s =
     (let r = ROB s ! idx;
          u = uop r;
          (origaddr, addr, annul_hi) = issuestore_addr hw u va vb;
          s1 = upd_lsq (lsq r) (\<lambda>l. l\<lparr>physaddr := drop_bit 3 addr, invalid := False,
                                        datavalid := False, addrvalid := True\<rparr>) s
      in add_stat ''store_size'' (uop_size u) 1
           (add_stat ''store_type_internal'' 0 (of_bool_w (internal u))
           (add_stat ''store_type_unaligned'' 0 (of_bool_w (\<not> internal u \<and> cond u \<noteq> LDST_ALIGN_NORMAL))
           (add_stat ''store_type_aligned'' 0 (of_bool_w (\<not> internal u \<and> cond u = LDST_ALIGN_NORMAL)) s1))))"

text \<open>
  \<open>issuestore\<close> from the scan of the LSQ on, where it arrives when the address raised
  no exception: \<open>li\<close> is the LSQ entry of the store and \<open>s2\<close> the state with the address
  resolved.
\<close>

definition issuestore_continue ::
  "hwdef \<Rightarrow> 'x extern \<Rightarrow> nat \<Rightarrow> nat \<Rightarrow> W64 \<Rightarrow> W64 \<Rightarrow> bool \<Rightarrow> 'x core \<Rightarrow> (int \<times> 'x core) option" where
  "issuestore_continue hw X idx li origaddr vc rcready s2 =
     (case store_scan_backward hw li s2 of
        None \<Rightarrow> None
      | Some sfra \<Rightarrow>
         (let ready = ((case sfra of
                          None \<Rightarrow> True
                        | Some i \<Rightarrow> addrvalid (LSQ s2 ! i) \<and> datavalid (LSQ s2 ! i)) \<and> rcready)
          in if \<not> ready then Some (ISSUE_NEEDS_REPLAY, issuestore_replay hw idx sfra rcready s2)
             else
               (case load_scan_forward hw li s2 of
                  None \<Rightarrow> None
                | Some (Some ldbuf) \<Rightarrow> issuestore_aliased hw X idx ldbuf s2
                | Some None \<Rightarrow> Some (ISSUE_COMPLETED, issuestore_merge idx sfra origaddr vc s2))))"

text \<open>
  \<open>ReorderBufferEntry::issuestore\<close>, called on the ROB entry with index \<open>idx\<close>; \<open>state\<close> is
  the LSQ entry of that ROB entry. \<open>va\<close>, \<open>vb\<close>, \<open>vc\<close> are the operand values and \<open>rcready\<close>
  tells whether the value to store has arrived.
\<close>

definition issuestore ::
  "hwdef \<Rightarrow> 'x extern \<Rightarrow> nat \<Rightarrow> W64 \<Rightarrow> W64 \<Rightarrow> W64 \<Rightarrow> bool \<Rightarrow> 'x core \<Rightarrow> (int \<times> 'x core) option" where
  "issuestore hw X idx va vb vc rcready s =
     (let r = ROB s ! idx;
          u = uop r;
          li = lsq r;
          (origaddr, addr, annul_hi) = issuestore_addr hw u va vb;
          s2 = issuestore_resolve hw idx va vb s;
          exception = issuestore_exception hw X u va vb
      in if exception \<noteq> 0 then
           (let s3 = upd_lsq li (\<lambda>l. l\<lparr>invalid := True, data := exception, datavalid := True\<rparr>) s2
            in if exception = EXCEPTION_UnalignedAccess hw then
                 (let s4 = bump ''bbcache_removes'' (s3\<lparr>ext := bbcache_remove X (rip u) (ext s3)\<rparr>);
                      s5 = s4\<lparr>ext := add_unaligned_ldst_rip X (rip u) (ext s4)\<rparr>
                  in case annul_after_and_including hw X idx s5 of
                       None \<Rightarrow> None
                     | Some (recoveryrip, s6) \<Rightarrow>
                         Some (ISSUE_MISSPECULATED,
                               bump ''store_issue_unaligned'' (reset_fetch_unit recoveryrip s6)))
               else Some (ISSUE_COMPLETED, bump ''store_issue_exception'' s3))
         else issuestore_continue hw X idx li origaddr vc rcready s2)"
section \<open>Issue\<close>

text \<open>\<open>lsbindex\<close>: the index of the lowest set bit of a functional unit mask.\<close>

definition lsbindex :: "W32 \<Rightarrow> nat" where
  "lsbindex w = length (takeWhile (\<lambda>n. \<not> bit w n) [0..<32])"

text \<open>\<open>listid\<close> of the physical register state lists, in the order they are declared.\<close>

fun physreg_listid :: "physreg_list \<Rightarrow> nat" where
  "physreg_listid physreg_free_list = 0"
| "physreg_listid physreg_used_list = 1"
| "physreg_listid physreg_ready_list = 2"
| "physreg_listid physreg_written_list = 3"
| "physreg_listid physreg_arch_list = 4"
| "physreg_listid physreg_pendingfree_list = 5"

text \<open>
  The bookkeeping \<open>issue\<close> does for a source register \<open>p\<close>, when \<open>counted\<close> holds:
  \<open>p.current_state_list->issue_source_counter++\<close> and
  \<open>p.all_consumers_sourced_from_bypass &= (p.current_state_list == &physreg_ready_list)\<close>.
\<close>

definition issue_source :: "bool \<Rightarrow> nat \<Rightarrow> 'x core \<Rightarrow> 'x core" where
  "issue_source counted p s =
     (if counted then
        upd_physreg p
          (\<lambda>r. r\<lparr>all_consumers_sourced_from_bypass :=
                    all_consumers_sourced_from_bypass r \<and> pr_current_state_list r = Some physreg_ready_list\<rparr>)
          (add_stat ''issue_source_counter''
             (physreg_listid (the (pr_current_state_list (physregs s ! p)))) 1 s)
      else s)"

text \<open>\<open>ReorderBufferEntry::release\<close>\<close>

definition release :: "nat \<Rightarrow> 'x core \<Rightarrow> 'x core" where
  "release idx s =
     upd_rob idx (\<lambda>r. r\<lparr>iqslot := - 1\<rparr>)
       (issueq_operation_on_cluster (cluster (ROB s ! idx)) (iq_release (iqslot (ROB s ! idx))) s)"

text \<open>
  The second half of \<open>issue\<close>, from the write of the result \<open>rddata\<close>, \<open>rdflags\<close> into the
  destination register on.
\<close>

definition issue_writeback ::
  "hwdef \<Rightarrow> 'x extern \<Rightarrow> nat \<Rightarrow> W64 \<Rightarrow> W16 \<Rightarrow> 'x core \<Rightarrow> (int \<times> 'x core) option" where
  "issue_writeback hw X idx rddata rdflags s =
     (let u = uop (ROB s ! idx);
          br = isbranch hw (opcode u);
          p = the (physreg (ROB s ! idx));
          s1 = upd_physreg p (\<lambda>r. r\<lparr>flags := rdflags, pr_data := rddata\<rparr>) s;
          s2 = (if \<not> pr_valid hw (physregs s1 ! p)
                then (rob_changestate idx rob_ready_to_commit_queue
                        (upd_rob idx (\<lambda>r. r\<lparr>cycles_left := 0\<rparr>) s1))\<lparr>stall_frontend := True\<rparr>
                else s1);
          mispredicted = (pr_data (physregs s2 ! p) \<noteq> riptaken u);
          s3 = release idx s2
      in if pr_valid hw (physregs s3 ! p) then
           (if br then
              (let bp = predinfo u;
                   c = bp_hint_cond bp;
                   indir = bp_hint_indirect bp;
                   ret = bp_hint_ret bp
               in if mispredicted then
                    (let s4 = bump ''branchpred_total_mispred''
                                (add_stat ''branchpred_return_mispred'' 0 (of_bool_w ret)
                                (add_stat ''branchpred_indir_mispred'' 0 (of_bool_w (indir \<and> \<not> ret))
                                (add_stat ''branchpred_cond_mispred'' 0 (of_bool_w c) s3)));
                         realrip = pr_data (physregs s4 ! p)
                     in case annul_after hw X idx s4 of
                          None \<Rightarrow> None
                        | Some (recoveryrip, s5) \<Rightarrow>
                            Some (- 1, bump ''issue_result_branch_mispredict'' (reset_fetch_unit realrip s5)))
                  else
                    Some (1, bump ''issue_result_complete''
                               (bump ''branchpred_total_correct''
                               (add_stat ''branchpred_return_correct'' 0 (of_bool_w ret)
                               (add_stat ''branchpred_indir_correct'' 0 (of_bool_w (indir \<and> \<not> ret))
                               (add_stat ''branchpred_cond_correct'' 0 (of_bool_w c) s3))))))
            else Some (1, bump ''issue_result_complete'' s3))
         else Some (1, bump ''issue_result_exception'' s3))"

text \<open>
  The \<open>IssueInput\<close> that \<open>issue\<close> builds for the ROB entry \<open>r\<close> from the physical
  registers of its operands, an immediate standing in for \<open>rb\<close> or \<open>rc\<close> when the uop
  names \<open>REG_imm\<close>.
\<close>

definition issue_input :: "hwdef \<Rightarrow> ReorderBufferEntry \<Rightarrow> PhysicalRegister list \<Rightarrow> IssueInput" where
  "issue_input hw r regs =
     (let u = uop r;
          pa = operands r ! RA;
          pb = operands r ! RB;
          pc = operands r ! RC
      in \<lparr>in_ra = pr_data (regs ! pa),
          in_rb = (if rb u = REG_imm hw then rbimm u else pr_data (regs ! pb)),
          in_rc = (if rc u = REG_imm hw then rcimm u else pr_data (regs ! pc)),
          in_raflags = flags (regs ! pa),
          in_rbflags = (if rb u = REG_imm hw then 0 else flags (regs ! pb)),
          in_rcflags = (if rc u = REG_imm hw then 0 else flags (regs ! pc))\<rparr>)"

text \<open>
  \<open>ReorderBufferEntry::issue\<close>, called on the ROB entry with index \<open>idx\<close>. The result is
  1 when the uop issued, 0 when it must be replayed and -1 after a mis-speculation.
\<close>

definition issue :: "hwdef \<Rightarrow> 'x extern \<Rightarrow> nat \<Rightarrow> 'x core \<Rightarrow> (int \<times> 'x core) option" where
  "issue hw X idx s =
     (let r = ROB s ! idx;
          u = uop r;
          executable_on_fu = opinfo_fu hw (opcode u) AND clusters_fu_mask hw (cluster r) AND fu_avail s
      in if executable_on_fu = 0 then
           Some (ISSUE_NEEDS_REPLAY,
                 issueq_operation_on_cluster (cluster r) (iq_replay_slot (iqslot r))
                   (bump ''issue_result_no_fu'' s))
         else
     (let s1 = bump ''issue_total_uops'' s;
          f = lsbindex executable_on_fu;
          s2 = s1\<lparr>fu_avail := fu_avail s1 AND NOT (push_bit f 1), robs_on_fu := (robs_on_fu s1)(f := idx)\<rparr>;
          s3 = upd_rob idx (\<lambda>r. r\<lparr>fu := f, cycles_left := w16s (opinfo_latency hw (opcode u))\<rparr>) s2;
          s4 = rob_changestate idx (rob_issued_list (cluster r)) s3;
          pa = operands r ! RA;
          pb = operands r ! RB;
          pc = operands r ! RC;
          input = issue_input hw r (physregs s4);
          ld = isload hw (opcode u);
          st = isstore hw (opcode u);
          br = isbranch hw (opcode u);
          s5 = issue_source (nonnull hw pa) pa s4;
          s6 = issue_source (rbimm u = 0 \<and> nonnull hw pb) pb s5;
          s7 = issue_source (rcimm u = 0 \<and> nonnull hw pc) pc s6
      in if (in_raflags input OR in_rbflags input OR in_rcflags input) AND FLAG_INV hw \<noteq> 0 then
           issue_writeback hw X idx (EXCEPTION_Propagate hw) (FLAG_INV hw) s7
         else
     (let s8 = add_stat ''issue_opclass_histogram'' (opclassof hw (opcode u)) 1 s7
      in if ld \<or> st then
           (case (if ld then issueload X idx (in_ra input) (in_rb input) (in_rc input) s8
                  else issuestore hw X idx (in_ra input) (in_rb input) (in_rc input)
                         (pr_ready hw (physregs s8 ! (operands (ROB s8 ! idx) ! RC))) s8) of
              None \<Rightarrow> None
            | Some (completed, s9) \<Rightarrow>
                if completed = ISSUE_MISSPECULATED then Some (- 1, bump ''issue_result_misspeculation'' s9)
                else
                  (let l = LSQ s9 ! lsq (ROB s9 ! idx);
                       rddata = data l;
                       rdflags = (if invalid l then FLAG_INV hw else 0) OR
                                 (if \<not> datavalid l then FLAG_WAIT hw else 0)
                   in if completed = ISSUE_NEEDS_REPLAY then Some (0, bump ''issue_result_replay'' s9)
                      else issue_writeback hw X idx rddata rdflags s9))
         else if br then
           (let (rddata, rdflags) = call_exec_func X u input
            in if \<not> isbarrier hw (opcode u) \<and> \<not> asp_check_exec X rddata
               then issue_writeback hw X idx (EXCEPTION_PageFaultOnExec hw) (rdflags OR FLAG_INV hw) s8
               else issue_writeback hw X idx rddata rdflags s8)
         else
           (let (rddata, rdflags) = call_exec_func X u input
            in issue_writeback hw X idx rddata rdflags s8))))"

text \<open>
  What a mis-speculation recovery writes and nothing else in \<open>issue\<close> does: an annulment
  takes entries back from the tail of the ROB and of the LSQ and rebuilds the
  speculative rename table, \<open>reset_fetch_unit\<close> redirects the fetch unit, and the store
  that finds an aliased load records it in the alias predictor. The ROB entries that are
  in use are compared apart, by their \<open>entry_valid\<close> bits.
\<close>

definition speculative_state ::
  "'x core \<Rightarrow> (nat \<times> nat \<times> int) \<times> (nat \<times> nat \<times> int) \<times> (nat list \<times> nat list)
               \<times> (W64 \<times> bool \<times> uop_t list \<times> nat option \<times> nat) \<times> W64 list" where
  "speculative_state s =
     ((ROB_head s, ROB_tail s, ROB_count s), (LSQ_head s, LSQ_tail s, LSQ_count s),
      (specrrt s, commitrrt s),
      (fetchrip s, waiting_for_icache_fill s, fetchq s, current_basic_block s,
       current_basic_block_transop_index s),
      lsap s)"

section \<open>Complete and transfer\<close>

text \<open>
  \<open>ReorderBufferEntry::forward\<close>. \<open>init_luts\<close> sets bit \<open>destc\<close> of
  \<open>forward_at_cycle_lut[srcc][lat]\<close> exactly when \<open>lat == intercluster_latency_map[srcc][destc]\<close>,
  so the clusters a ROB entry broadcasts to are those at latency \<open>forward_cycle\<close> from its
  own.
\<close>

definition forward_at_cycle_lut :: "hwdef \<Rightarrow> int \<Rightarrow> int \<Rightarrow> nat list" where
  "forward_at_cycle_lut hw srcc lat =
     filter (\<lambda>destc. lat = intercluster_latency_map hw srcc destc) [0..<MAX_CLUSTERS hw]"

definition forward :: "hwdef \<Rightarrow> nat \<Rightarrow> 'x core \<Rightarrow> 'x core" where
  "forward hw idx s =
     fold (\<lambda>i t. issueq_operation_on_cluster (int i) (iq_broadcast idx) t)
       (forward_at_cycle_lut hw (cluster (ROB s ! idx)) (forward_cycle (ROB s ! idx))) s"

text \<open>The body of the loop of \<open>transfer\<close>, for the ROB entry \<open>i\<close> of the completed list.\<close>

definition transfer_rob :: "hwdef \<Rightarrow> nat \<Rightarrow> 'x core \<Rightarrow> 'x core" where
  "transfer_rob hw i s =
     (let s1 = forward hw i s;
          s2 = upd_rob i (\<lambda>r. r\<lparr>forward_cycle := w16s (forward_cycle r + 1)\<rparr>) s1
      in if forward_cycle (ROB s2 ! i) > MAX_FORWARDING_LATENCY hw then
           rob_changestate i (rob_ready_to_writeback_list (cluster (ROB s2 ! i)))
             (upd_rob i (\<lambda>r. r\<lparr>forward_cycle := w16s (MAX_FORWARDING_LATENCY hw)\<rparr>) s2)
         else s2)"

text \<open>
  \<open>transfer(cluster)\<close>. \<open>foreach_list_mutable\<close> walks the list as it stood when the loop
  began: the body only moves the current entry away.
\<close>

definition transfer :: "hwdef \<Rightarrow> int \<Rightarrow> 'x core \<Rightarrow> 'x core" where
  "transfer hw cl s = fold (transfer_rob hw) (rob_states s (rob_completed_list cl)) s"

text \<open>\<open>complete(cluster)\<close> and its loop body.\<close>

definition complete_rob :: "int \<Rightarrow> nat \<Rightarrow> 'x core \<Rightarrow> 'x core" where
  "complete_rob cl i s =
     (let s1 = upd_rob i (\<lambda>r. r\<lparr>cycles_left := w16s (cycles_left r - 1)\<rparr>) s
      in if cycles_left (ROB s1 ! i) \<le> 0 then
           (let s2 = rob_changestate i (rob_completed_list cl) s1;
                s3 = physreg_changestate (the (physreg (ROB s2 ! i))) physreg_ready_list s2
            in upd_rob i (\<lambda>r. r\<lparr>forward_cycle := 0, fu := 0\<rparr>) s3)
         else s1)"

definition complete :: "int \<Rightarrow> 'x core \<Rightarrow> 'x core" where
  "complete cl s = fold (complete_rob cl) (rob_states s (rob_issued_list cl)) s"

text \<open>\<open>ReorderBufferEntry::loadwakeup\<close>\<close>

definition loadwakeup :: "hwdef \<Rightarrow> nat \<Rightarrow> 'x core \<Rightarrow> 'x core" where
  "loadwakeup hw idx s =
     (let p = the (physreg (ROB s ! idx));
          s1 = upd_physreg p (\<lambda>r. r\<lparr>flags := flags r AND NOT (FLAG_WAIT hw)\<rparr>) s;
          s2 = physreg_changestate p physreg_ready_list s1;
          s3 = upd_lsq (lsq (ROB s2 ! idx)) (\<lambda>l. l\<lparr>datavalid := True\<rparr>) s2;
          s4 = rob_changestate idx (rob_completed_list (cluster (ROB s3 ! idx))) s3
      in upd_rob idx (\<lambda>r. r\<lparr>cycles_left := 0, lfrqslot := - 1, forward_cycle := 0, fu := 0\<rparr>) s4)"

section \<open>Commit\<close>

definition ready_to_commit :: "ReorderBufferEntry \<Rightarrow> bool" where
  "ready_to_commit r = (current_state_list r = Some rob_ready_to_commit_queue)"

text \<open>\<open>ReorderBufferEntry::has_exception\<close>, of the ROB entry with index \<open>j\<close>.\<close>

definition has_exception :: "hwdef \<Rightarrow> 'x core \<Rightarrow> nat \<Rightarrow> bool" where
  "has_exception hw s j = (flags (physregs s ! the (physreg (ROB s ! j))) AND FLAG_INV hw \<noteq> 0)"

text \<open>
  The scan at the head of \<open>ReorderBufferEntry::commit\<close>. Modelled from the spec:
  \<open>foreach_forward_from\<close> (\<open>globals.h\<close>) is missing from the sources; the scan runs over
  the ROB "in program order" from the entry itself towards the tail. It stops at the first
  entry that is not ready to commit, that has an exception or that ends the macro-op,
  whichever comes first, or at the tail.
\<close>

datatype commit_scan_result = scan_not_ready | scan_exception W64 | scan_all_ready

definition commit_scan :: "hwdef \<Rightarrow> nat \<Rightarrow> 'x core \<Rightarrow> commit_scan_result option" where
  "commit_scan hw idx s =
     (case ring_find
             (\<lambda>j. \<not> ready_to_commit (ROB s ! j) \<or> has_exception hw s j \<or> eom (uop (ROB s ! j)))
             (ROB_SIZE hw) 1 (ROB_SIZE hw) idx (ROB_tail s) of
        None \<Rightarrow> None
      | Some None \<Rightarrow> Some scan_all_ready
      | Some (Some j) \<Rightarrow>
          Some (if \<not> ready_to_commit (ROB s ! j) then scan_not_ready
                else if has_exception hw s j
                then scan_exception (pr_data (physregs s ! the (physreg (ROB s ! j))))
                else scan_all_ready))"

text \<open>The exception exit of \<open>commit\<close>.\<close>

definition commit_exception :: "hwdef \<Rightarrow> nat \<Rightarrow> W64 \<Rightarrow> 'x core \<Rightarrow> 'x core" where
  "commit_exception hw idx e s =
     (let u = uop (ROB s ! idx);
          s1 = s\<lparr>ctx_exception := e\<rparr>;
          s2 = add_stat ''commit_opclass_histogram'' (opclassof hw (opcode u)) 1 s1;
          s3 = (if opcode u = OP_chk hw \<and> ctx_exception s2 = EXCEPTION_SkipBlock hw
                then bump ''commit_result_exception_skipblock''
                       (s2\<lparr>chk_recovery_rip := ctx_commitarf s2 (REG_rip hw)
                                                 + of_nat (bytes_in_current_insn_to_commit s2)\<rparr>)
                else bump ''commit_result_exception'' s2)
      in s3\<lparr>total_uops_committed := total_uops_committed s3 + 1,
             total_user_insns_committed := total_user_insns_committed s3 + 1\<rparr>)"

text \<open>The update of the architectural state, when the whole macro-op is ready and free of exceptions.\<close>

definition commit_update_state :: "hwdef \<Rightarrow> 'x extern \<Rightarrow> nat \<Rightarrow> 'x core \<Rightarrow> 'x core" where
  "commit_update_state hw X idx s =
     (let r = ROB s ! idx;
          u = uop r;
          p = the (physreg r);
          oldphysreg = commitrrt s ! rd u;
          ld = isload hw (opcode u);
          st = isstore hw (opcode u);
          s1 = add_stat ''commit_opclass_histogram'' (opclassof hw (opcode u)) 1 s;
          s2 = (if archdest_can_commit hw (rd u) then commitrrt_assign hw (rd u) p s1 else s1);
          s3 = (if eom u then
                  s2\<lparr>ctx_commitarf := (ctx_commitarf s2)(REG_rip hw :=
                        (if rd u = REG_rip hw then pr_data (physregs s2 ! p)
                         else ctx_commitarf s2 (REG_rip hw) + of_nat (bytes_in_current_insn_to_commit s2)))\<rparr>
                else s2);
          s4 = (if \<not> nouserflags u then
                  (let flagmask = setflags_to_x86_flags hw (setflags u);
                       t0 = s3\<lparr>ctx_commitarf := (ctx_commitarf s3)(REG_flags hw :=
                              (ctx_commitarf s3 (REG_flags hw) AND NOT flagmask)
                              OR (ucast (flags (physregs s3 ! p)) AND flagmask))\<rparr>;
                       t1 = add_stat ''commit_flags_unset'' 0 (of_bool_w (setflags u = 0))
                              (add_stat ''commit_flags_set'' 0 (of_bool_w (setflags u \<noteq> 0)) t0);
                       t2 = (if setflags u AND SETFLAG_ZF hw \<noteq> 0 then commitrrt_assign hw (REG_zf hw) p t1 else t1);
                       t3 = (if setflags u AND SETFLAG_CF hw \<noteq> 0 then commitrrt_assign hw (REG_cf hw) p t2 else t2)
                   in (if setflags u AND SETFLAG_OF hw \<noteq> 0 then commitrrt_assign hw (REG_of hw) p t3 else t3))
                else s3);
          s5 = (if st then s4\<lparr>ext := commitstore_unlocked X (LSQ s4 ! lsq r) (ext s4)\<rparr> else s4);
          s6 = (if ld \<or> st then LSQ_commit hw (lsq r) s5 else s5);
          s7 = (if nonnull hw oldphysreg then
                  (if referenced (physregs s6 ! oldphysreg)
                   then bump ''commit_freereg_pending'' (physreg_changestate oldphysreg physreg_pendingfree_list s6)
                   else bump ''commit_freereg_free'' (physreg_free oldphysreg s6))
                else s6);
          s8 = physreg_changestate p physreg_arch_list s7;
          s9 = fold (\<lambda>i t. unref hw (operands r ! i) t) [0..<MAX_OPERANDS] s8;
          s10 = (if isbranch hw (opcode u) then
                   (let end_of_branch_x86_insn = rip u + of_nat (bytes_in_current_insn_to_commit s9);
                        taken = (ctx_commitarf s9 (REG_rip hw) \<noteq> end_of_branch_x86_insn);
                        predtaken = (riptaken u \<noteq> end_of_branch_x86_insn)
                    in bump ''branchpred_updates''
                         (s9\<lparr>ext := branchpred_update X (predinfo u) end_of_branch_x86_insn
                                       (ctx_commitarf s9 (REG_rip hw)) taken predtaken
                                       (taken = predtaken) (ext s9)\<rparr>))
                 else s9);
          s11 = (if eom u then s10\<lparr>total_user_insns_committed := total_user_insns_committed s10 + 1\<rparr>
                 else s10);
          s12 = s11\<lparr>total_uops_committed := total_uops_committed s11 + 1\<rparr>
      in ROB_commit hw idx (rob_changestate idx rob_free_list s12))"

text \<open>The end of \<open>commit\<close>: a barrier uop is reported as such.\<close>

definition commit_update :: "hwdef \<Rightarrow> 'x extern \<Rightarrow> nat \<Rightarrow> 'x core \<Rightarrow> commit_result \<times> 'x core" where
  "commit_update hw X idx s =
     (let u = uop (ROB s ! idx);
          s13 = commit_update_state hw X idx s
      in if isbarrier hw (opcode u) then (COMMIT_RESULT_BARRIER, bump ''commit_result_barrier'' s13)
         else (COMMIT_RESULT_OK, bump ''commit_result_ok'' s13))"

text \<open>
  \<open>ReorderBufferEntry::commit\<close>, called on the ROB entry with index \<open>idx\<close>. \<open>ctx.exception\<close>
  is written as soon as the scan meets an exception.
\<close>

definition commit_rob :: "hwdef \<Rightarrow> 'x extern \<Rightarrow> nat \<Rightarrow> 'x core \<Rightarrow> (commit_result \<times> 'x core) option" where
  "commit_rob hw X idx s =
     (let u = uop (ROB s ! idx);
          s0 = (if som u then s\<lparr>bytes_in_current_insn_to_commit := bytes u\<rparr> else s)
      in case commit_scan hw idx s0 of
           None \<Rightarrow> None
         | Some scan_not_ready \<Rightarrow> Some (COMMIT_RESULT_NONE, bump ''commit_result_none'' s0)
         | Some (scan_exception e) \<Rightarrow> Some (COMMIT_RESULT_EXCEPTION, commit_exception hw idx e s0)
         | Some scan_all_ready \<Rightarrow> Some (commit_update hw X idx s0))"

text \<open>
  The architectural state that a commit updates: the committed rename table, the physical
  registers it maps to, the architectural registers of the context with the rip and the
  flags, and simulated memory, which is part of the state of the collaborators.
\<close>

definition architectural_state ::
  "'x core \<Rightarrow> nat list \<times> PhysicalRegister list \<times> (nat \<Rightarrow> W64) \<times> 'x" where
  "architectural_state s = (commitrrt s, physregs s, ctx_commitarf s, ext s)"

section \<open>Rename: structural hazards\<close>

text \<open>
  Modelled from the spec: \<open>Queue::remaining\<close> (\<open>globals.h\<close>) is missing from the sources;
  rename stops on a "full ROB" or LSQ, a queue that holds as many entries as it has room
  for.
\<close>

definition queue_remaining :: "nat \<Rightarrow> int \<Rightarrow> bool" where
  "queue_remaining capacity count = (count < int capacity)"

text \<open>
  The checks at the head of the loop body of \<open>rename\<close>, in the order of the source: which
  of them stops the loop for the uop at the head of the fetch queue, if any.
\<close>

datatype rename_status =
    rename_fetchq_empty | rename_rob_full | rename_physregs_full | rename_ldq_full
  | rename_stq_full | rename_memq_full | rename_proceeds

definition rename_check :: "hwdef \<Rightarrow> 'x core \<Rightarrow> rename_status" where
  "rename_check hw s =
     (if fetchq s = [] then rename_fetchq_empty
      else if \<not> queue_remaining (ROB_SIZE hw) (ROB_count s) then rename_rob_full
      else if physreg_states s physreg_free_list = [] then rename_physregs_full
      else
        (let fetchbuf = hd (fetchq s);
             ld = isload hw (opcode fetchbuf);
             st = isstore hw (opcode fetchbuf)
         in if ld \<and> loads_in_flight s \<ge> LDQ_SIZE hw then rename_ldq_full
            else if st \<and> stores_in_flight s \<ge> LDQ_SIZE hw then rename_stq_full
            else if (ld \<or> st) \<and> \<not> queue_remaining (LSQ_SIZE hw) (LSQ_count s) then rename_memq_full
            else rename_proceeds))"

section \<open>The reference count checker\<close>

definition count_ref :: "nat \<Rightarrow> int list \<Rightarrow> int list" where
  "count_ref i refcounts = refcounts[i := refcounts ! i + 1]"

text \<open>
  The array \<open>refcounts\<close> that \<open>check_refcounts\<close> computes, and its verdict \<open>errors\<close>.
  \<open>foreach_forward(ROB, i)\<close> runs from the head of the ROB to its tail.
\<close>

definition expected_refcounts :: "hwdef \<Rightarrow> 'x core \<Rightarrow> int list option" where
  "expected_refcounts hw s =
     (case ring_fwd (ROB_SIZE hw) (ROB_SIZE hw) (ROB_head s) (ROB_tail s) of
        None \<Rightarrow> None
      | Some robs \<Rightarrow>
         (let r0 = replicate (PHYS_REG_FILE_SIZE hw) 0;
              r1 = fold (\<lambda>i rs. fold (\<lambda>j. count_ref (operands (ROB s ! i) ! j)) [0..<MAX_OPERANDS] rs) robs r0;
              r2 = fold (\<lambda>i rs. count_ref (specrrt s ! i) (count_ref (commitrrt s ! i) rs))
                     [0..<TRANSREG_COUNT hw] r1
          in Some (r2[PHYS_REG_NULL hw := 0])))"

definition check_refcounts :: "hwdef \<Rightarrow> 'x core \<Rightarrow> bool option" where
  "check_refcounts hw s =
     map_option
       (\<lambda>refcounts. list_ex (\<lambda>i. refcount (physregs s ! i) \<noteq> refcounts ! i) [0..<PHYS_REG_FILE_SIZE hw])
       (expected_refcounts hw s)"

text \<open>
  The references a reference count stands for (I2, P1 of the specification): the operand
  slots of the ROB entries \<open>robs\<close> and the slots of the two rename tables, as the list
  of the registers they name.
\<close>

definition reference_slots :: "hwdef \<Rightarrow> 'x core \<Rightarrow> nat list \<Rightarrow> nat list" where
  "reference_slots hw s robs =
     concat (map (\<lambda>i. map (\<lambda>j. operands (ROB s ! i) ! j) [0..<MAX_OPERANDS]) robs)
     @ concat (map (\<lambda>i. [commitrrt s ! i, specrrt s ! i]) [0..<TRANSREG_COUNT hw])"

section \<open>The top-level loop\<close>

text \<open>
  \<open>out_of_order_core_toplevel_loop\<close>, as far as the cycle counters go. What the pipeline
  stages do in one iteration reaches these counters in four ways only, which are the
  iteration's \<open>cycle_outcome\<close>: \<open>commit()\<close> stores \<open>sim_cycle\<close> into \<open>last_commit_at_cycle\<close>
  when a ROB entry commits with \<open>COMMIT_RESULT_OK\<close> (\<open>committed\<close>) and returns
  \<open>commitrc\<close>; the commits add to \<open>total_user_insns_committed\<close> (\<open>user_insns\<close>, its new
  value); \<open>handle_barrier\<close> or \<open>handle_exception\<close> says whether to go on
  (\<open>handler_continues\<close>). The loop runs over the outcomes of as many iterations as are
  given; \<open>warnings\<close> collects, for each "could be deadlocked" warning, the cycle and the
  number of cycles it names.
\<close>

record cycle_outcome =
  committed :: bool
  commitrc :: commit_result
  user_insns :: W64
  handler_continues :: bool

record driver =
  drv_sim_cycle :: W64
  drv_last_commit_at_cycle :: W64
  drv_iterations :: W64
  drv_total_user_insns_committed :: W64
  drv_running :: bool
  warnings :: "(W64 \<times> W64) list"

fun toplevel_loop :: "W64 \<Rightarrow> W64 \<Rightarrow> cycle_outcome list \<Rightarrow> driver \<Rightarrow> driver" where
  "toplevel_loop stop_at_iteration stop_at_user_insns [] d = d"
| "toplevel_loop stop_at_iteration stop_at_user_insns (oc # ocs) d =
     (if \<not> (drv_iterations d < stop_at_iteration \<and> drv_total_user_insns_committed d < stop_at_user_insns)
      then d\<lparr>drv_running := False\<rparr>
      else if drv_sim_cycle d - drv_last_commit_at_cycle d > 1024
      then d\<lparr>drv_running := False,
             warnings := warnings d @ [(drv_sim_cycle d, drv_sim_cycle d - drv_last_commit_at_cycle d)]\<rparr>
      else
        (let d1 = d\<lparr>drv_last_commit_at_cycle :=
                       (if committed oc then drv_sim_cycle d else drv_last_commit_at_cycle d),
                    drv_total_user_insns_committed := user_insns oc\<rparr>
         in if (commitrc oc = COMMIT_RESULT_BARRIER \<and> \<not> handler_continues oc)
               \<or> (commitrc oc = COMMIT_RESULT_EXCEPTION \<and> \<not> handler_continues oc)
               \<or> commitrc oc = COMMIT_RESULT_STOP
            then d1\<lparr>drv_running := False\<rparr>
            else toplevel_loop stop_at_iteration stop_at_user_insns ocs
                   (d1\<lparr>drv_iterations := drv_iterations d1 + 1, drv_sim_cycle := drv_sim_cycle d1 + 1\<rparr>)))"

text \<open>
  The counters as the run starts (\<open>sim_cycle\<close> and \<open>iterations\<close> in \<open>config.cpp\<close>,
  \<open>last_commit_at_cycle\<close> in \<open>ooocore.cpp\<close>, all initialised to 0), a cycle in which
  nothing commits, and a cycle in which a uop commits, \<open>n\<close> being the number of user
  instructions committed so far.
\<close>

definition driver_init :: driver where
  "driver_init = \<lparr>drv_sim_cycle = 0, drv_last_commit_at_cycle = 0, drv_iterations = 0,
                   drv_total_user_insns_committed = 0, drv_running = True, warnings = []\<rparr>"

definition quiet_cycle :: "W64 \<Rightarrow> cycle_outcome" where
  "quiet_cycle n = \<lparr>committed = False, commitrc = COMMIT_RESULT_NONE, user_insns = n,
                     handler_continues = True\<rparr>"

definition commit_cycle :: "W64 \<Rightarrow> cycle_outcome" where
  "commit_cycle n = \<lparr>committed = True, commitrc = COMMIT_RESULT_OK, user_insns = n,
                      handler_continues = True\<rparr>"

section \<open>Rename: allocation\<close>

text \<open>
  Modelled from the spec: \<open>Queue::alloc\<close> (\<open>globals.h\<close>) is missing from the sources.
  Rename has to "allocate one ROB and one PRF, and (if load or store) one LSQ entry":
  the queue hands out the entry at its tail, marked valid by the \<open>validate\<close> hook of the
  entry, and the tail moves on by one.
\<close>

definition ROB_alloc :: "hwdef \<Rightarrow> 'x core \<Rightarrow> 'x core" where
  "ROB_alloc hw s =
     (let s1 = upd_rob (ROB_tail s) (\<lambda>r. r\<lparr>entry_valid := True\<rparr>) s
      in s1\<lparr>ROB_count := ROB_count s1 + 1,
             ROB_tail := add_index_modulo (ROB_tail s1) 1 (ROB_SIZE hw)\<rparr>)"

definition LSQ_alloc :: "hwdef \<Rightarrow> 'x core \<Rightarrow> 'x core" where
  "LSQ_alloc hw s =
     (let s1 = upd_lsq (LSQ_tail s) (\<lambda>l. l\<lparr>lsq_entry_valid := True\<rparr>) s
      in s1\<lparr>LSQ_count := LSQ_count s1 + 1,
             LSQ_tail := add_index_modulo (LSQ_tail s1) 1 (LSQ_SIZE hw)\<rparr>)"

text \<open>
  \<open>PhysicalRegisterFile::alloc\<close>, when the free list is not empty: the register at the
  head of the free list is unlinked and put on the used list.
\<close>

definition physregs_alloc :: "hwdef \<Rightarrow> 'x core \<Rightarrow> 'x core" where
  "physregs_alloc hw s =
     (let p = hd (physreg_states s physreg_free_list);
          s1 = s\<lparr>physreg_states := (physreg_states s)(physreg_free_list := tl (physreg_states s physreg_free_list))\<rparr>;
          s2 = upd_physreg p (\<lambda>r. r\<lparr>pr_current_state_list := None\<rparr>) s1;
          s3 = physreg_changestate p physreg_used_list s2
      in upd_physreg p (\<lambda>r. r\<lparr>flags := FLAG_WAIT hw\<rparr>) s3)"

text \<open>
  The body of the loop of \<open>rename\<close> from \<open>frontend_status_complete++\<close> on, for the uop at
  the head of the fetch queue, once none of the checks of \<open>rename_check\<close> has stopped the
  loop. It is cut in three: the allocation of the ROB entry, the physical register and the
  LSQ entry for the uop \<open>transop\<close>; the renaming of the operands of the ROB entry
  \<open>robidx\<close>; and the renaming of the destination and of the flags to the register \<open>p\<close>.
  \<open>archdest_can_rename\<close> is the table that \<open>archdest_can_commit\<close> names too. Nothing here
  writes \<open>loads_in_flight\<close> or \<open>stores_in_flight\<close>.
\<close>

definition rename_alloc :: "hwdef \<Rightarrow> uop_t \<Rightarrow> 'x core \<Rightarrow> 'x core" where
  "rename_alloc hw transop s =
     (let ld = isload hw (opcode transop);
          st = isstore hw (opcode transop);
          br = isbranch hw (opcode transop);
          robidx = ROB_tail s;
          s2 = ROB_alloc hw s;
          p = hd (physreg_states s2 physreg_free_list);
          s3 = physregs_alloc hw s2;
          s4 = upd_physreg p (\<lambda>r. r\<lparr>flags := FLAG_WAIT hw, pr_data := 0xdeadbeefdeadbeef\<rparr>) s3;
          li = LSQ_tail s4;
          s5 = (if ld \<or> st then LSQ_alloc hw s4 else s4);
          s6 = upd_rob robidx
                 (\<lambda>r. (rob_reset r)\<lparr>physreg := Some p, uop := transop, entry_valid := True,
                                      cycles_left := w16s (FRONTEND_STAGES hw)\<rparr>) s5;
          s7 = (if ld \<or> st then
                  upd_lsq li (\<lambda>l. l\<lparr>lsq_rob := Some robidx, store := st, datavalid := False,
                                      addrvalid := False, invalid := False\<rparr>)
                    (upd_rob robidx (\<lambda>r. r\<lparr>lsq := li\<rparr>) s6)
                else s6);
          s8 = add_stat ''frontend_alloc_br'' 0 (of_bool_w br)
                 (add_stat ''frontend_alloc_sfr'' 0 (of_bool_w st)
                 (add_stat ''frontend_alloc_ldreg'' 0 (of_bool_w ld)
                 (add_stat ''frontend_alloc_reg'' 0 (of_bool_w (\<not> (ld \<or> st \<or> br))) s7)))
      in upd_physreg p (\<lambda>r. r\<lparr>pr_rob := robidx, archreg := rd transop\<rparr>) s8)"

definition rename_operands :: "hwdef \<Rightarrow> uop_t \<Rightarrow> nat \<Rightarrow> 'x core \<Rightarrow> 'x core" where
  "rename_operands hw transop robidx s =
     (let ops = [specrrt s ! ra transop, specrrt s ! rb transop, specrrt s ! rc transop, PHYS_REG_NULL hw];
          s1 = upd_rob robidx (\<lambda>r. r\<lparr>operands := ops\<rparr>) s
      in fold (\<lambda>i t. addref hw (ops ! i) t) [0..<MAX_OPERANDS] s1)"

definition rename_dest :: "hwdef \<Rightarrow> uop_t \<Rightarrow> nat \<Rightarrow> 'x core \<Rightarrow> 'x core" where
  "rename_dest hw transop p s =
     (let s1 = (if archdest_can_commit hw (rd transop) then specrrt_assign hw (rd transop) p s else s)
      in if \<not> nouserflags transop then
           (let t1 = (if setflags transop AND SETFLAG_ZF hw \<noteq> 0
                      then specrrt_assign hw (REG_zf hw) p s1 else s1);
                t2 = (if setflags transop AND SETFLAG_CF hw \<noteq> 0
                      then specrrt_assign hw (REG_cf hw) p t1 else t1)
            in (if setflags transop AND SETFLAG_OF hw \<noteq> 0
                then specrrt_assign hw (REG_of hw) p t2 else t2))
         else s1)"

definition rename_uop :: "hwdef \<Rightarrow> 'x extern \<Rightarrow> 'x core \<Rightarrow> 'x core" where
  "rename_uop hw X s =
     (let s0 = bump ''frontend_status_complete'' s;
          transop = hd (fetchq s0);
          s1 = s0\<lparr>fetchq := tl (fetchq s0)\<rparr>;
          robidx = ROB_tail s1;
          p = hd (physreg_states s1 physreg_free_list);
          s2 = rename_alloc hw transop s1;
          s3 = rename_operands hw transop robidx s2;
          s4 = rename_dest hw transop p s3;
          renamed_reg = (archdest_can_commit hw (rd transop) \<and> archdest_is_visible hw (rd transop));
          renamed_flags = (\<not> nouserflags transop \<and> setflags transop \<noteq> 0);
          s5 = (if isbranch hw (opcode transop)
                   \<and> (bp_hint_call (predinfo transop) \<or> bp_hint_ret (predinfo transop))
                then s4\<lparr>ext := branchpred_updateras X (predinfo transop) (ripafter (predinfo transop))
                                     (ext s4)\<rparr>
                else s4);
          s6 = add_stat ''frontend_renamed_reg_and_flags'' 0 (of_bool_w (renamed_reg \<and> renamed_flags))
                 (add_stat ''frontend_renamed_flags'' 0 (of_bool_w (\<not> renamed_reg \<and> renamed_flags))
                 (add_stat ''frontend_renamed_reg'' 0 (of_bool_w (renamed_reg \<and> \<not> renamed_flags))
                 (add_stat ''frontend_renamed_none'' 0 (of_bool_w (\<not> renamed_reg \<and> \<not> renamed_flags)) s5)))
      in rob_changestate robidx rob_frontend_list s6)"

text \<open>
  \<open>rename\<close>: the loop runs while \<open>prepcount < FRONTEND_WIDTH\<close>, \<open>k\<close> being the number of
  rounds that are left. A check that stops the loop counts its reason, except for the full
  LSQ, which has no counter.
\<close>

fun rename_loop :: "hwdef \<Rightarrow> 'x extern \<Rightarrow> nat \<Rightarrow> nat \<Rightarrow> 'x core \<Rightarrow> 'x core" where
  "rename_loop hw X 0 prepcount s = add_stat ''frontend_width_histogram'' prepcount 1 s"
| "rename_loop hw X (Suc k) prepcount s =
     (case rename_check hw s of
        rename_proceeds \<Rightarrow> rename_loop hw X k (Suc prepcount) (rename_uop hw X s)
      | rename_fetchq_empty \<Rightarrow>
          add_stat ''frontend_width_histogram'' prepcount 1 (bump ''frontend_status_fetchq_empty'' s)
      | rename_rob_full \<Rightarrow>
          add_stat ''frontend_width_histogram'' prepcount 1 (bump ''frontend_status_rob_full'' s)
      | rename_physregs_full \<Rightarrow>
          add_stat ''frontend_width_histogram'' prepcount 1 (bump ''frontend_status_physregs_full'' s)
      | rename_ldq_full \<Rightarrow>
          add_stat ''frontend_width_histogram'' prepcount 1 (bump ''frontend_status_ldq_full'' s)
      | rename_stq_full \<Rightarrow>
          add_stat ''frontend_width_histogram'' prepcount 1 (bump ''frontend_status_stq_full'' s)
      | rename_memq_full \<Rightarrow> add_stat ''frontend_width_histogram'' prepcount 1 s)"

definition rename :: "hwdef \<Rightarrow> 'x extern \<Rightarrow> 'x core \<Rightarrow> 'x core" where
  "rename hw X s = rename_loop hw X (FRONTEND_WIDTH hw) 0 s"

text \<open>
  What the checks of \<open>rename\<close> read, with the LSQ itself: the fetch queue, the number of
  ROB entries in use, the LSQ with its count and tail, the free list of the physical
  registers and the two in-flight counters.
\<close>

definition rename_view ::
  "'x core \<Rightarrow> uop_t list \<times> int \<times> LoadStoreQueueEntry list \<times> int \<times> nat \<times> nat list \<times> int \<times> int" where
  "rename_view s =
     (fetchq s, ROB_count s, LSQ s, LSQ_count s, LSQ_tail s, physreg_states s physreg_free_list,
      loads_in_flight s, stores_in_flight s)"

section \<open>The states between the pipeline stages\<close>

text \<open>
  The states the core is in between two stages, as far as \<open>forward_cycle\<close> goes. The ROB
  is a static array, zeroed when the program starts, and neither \<open>init\<close> nor \<open>reset\<close> of a
  ROB entry writes \<open>forward_cycle\<close>. The field is written in three places of the source:
  by \<open>transfer\<close>, by \<open>complete\<close> and by \<open>loadwakeup\<close>. Every other step of the core
  leaves the field of every ROB entry as it is, whatever else it does.
\<close>

inductive reachable :: "hwdef \<Rightarrow> 'x core \<Rightarrow> bool" for hw :: hwdef where
  zeroed: "\<forall>r \<in> set (ROB s). forward_cycle r = 0 \<Longrightarrow> reachable hw s"
| transfer_step: "reachable hw s \<Longrightarrow> reachable hw (transfer hw cl s)"
| complete_step: "reachable hw s \<Longrightarrow> reachable hw (complete cl s)"
| loadwakeup_step: "reachable hw s \<Longrightarrow> reachable hw (loadwakeup hw idx s)"
| other_step: "reachable hw s \<Longrightarrow> map forward_cycle (ROB s') = map forward_cycle (ROB s)
                 \<Longrightarrow> reachable hw s'"

section \<open>A small machine\<close>

text \<open>
  A configuration with a four entry ROB, two load and two store buffers, eight physical
  registers of which the last is the null register, and one cluster with one functional
  unit. Opcode 1 is a load, 2 a store, 3 a branch; everything else is an ALU operation.
  The results below are instantiated on it.
\<close>

definition example_hw :: hwdef where
  "example_hw =
     \<lparr>ROB_SIZE = 4, LDQ_SIZE = 2, STQ_SIZE = 2, PHYS_REG_FILE_SIZE = 8, PHYS_REG_NULL = 7,
      TRANSREG_COUNT = 4, MAX_CLUSTERS = 1, MAX_FORWARDING_LATENCY = 2, VIRT_ADDR_BITS = 48,
      virt_addr_mask = 0xFFFFFFFFFFFF, FLAG_INV = 8, FLAG_WAIT = 16,
      EXCEPTION_Propagate = 1, EXCEPTION_UnalignedAccess = 2, EXCEPTION_PageFaultOnWrite = 3,
      EXCEPTION_PageFaultOnExec = 4, EXCEPTION_LoadStoreAliasing = 5, EXCEPTION_SkipBlock = 6,
      SETFLAG_ZF = 1, SETFLAG_CF = 2, SETFLAG_OF = 4,
      REG_zf = 1, REG_cf = 2, REG_of = 3, REG_rip = 0, REG_flags = 1, REG_imm = 3,
      OP_chk = 9,
      isload = (\<lambda>op. op = 1), isstore = (\<lambda>op. op = 2), isbranch = (\<lambda>op. op = 3),
      isbarrier = (\<lambda>op. False), opclassof = (\<lambda>op. op),
      opinfo_fu = (\<lambda>op. 1), opinfo_latency = (\<lambda>op. 1),
      clusters_fu_mask = (\<lambda>c. 1), intercluster_latency_map = (\<lambda>c d. 0),
      setflags_to_x86_flags = (\<lambda>f. 0), archdest_can_commit = (\<lambda>r. True),
      archdest_is_visible = (\<lambda>r. True), FRONTEND_WIDTH = 2, FRONTEND_STAGES = 1\<rparr>"

text \<open>
  Collaborators that let every access through. The semantic callback of a branch gives
  the target the uop was predicted to take; a load completes at once.
\<close>

definition example_extern :: "unit extern" where
  "example_extern =
     \<lparr>asp_fastcheck_write = (\<lambda>a. True), asp_check_exec = (\<lambda>a. True),
      call_exec_func = (\<lambda>u inp. (riptaken u, 0)),
      issueload = (\<lambda>idx a b c s. Some (1, s)),
      annul_lfrq_slot = (\<lambda>i x. x), branchpred_annulras = (\<lambda>bp x. x),
      branchpred_update = (\<lambda>bp a b c d e x. x), bbcache_remove = (\<lambda>r x. x),
      add_unaligned_ldst_rip = (\<lambda>r x. x), commitstore_unlocked = (\<lambda>l x. x),
      branchpred_updateras = (\<lambda>bp r x. x)\<rparr>"

definition example_uop :: "nat \<Rightarrow> W64 \<Rightarrow> uop_t" where
  "example_uop op r =
     \<lparr>opcode = op, uop_size = 3, cond = LDST_ALIGN_NORMAL, ra = 0, rb = 0, rc = 0, rd = 0,
      rbimm = 0, rcimm = 0, setflags = 0, internal = False, nouserflags = False,
      som = True, eom = True, bytes = 4, riptaken = r + 4, ripseq = r + 4, rip = r,
      uuid = 0, synthop = 0,
      predinfo = \<lparr>bp_hint_cond = True, bp_hint_indirect = False, bp_hint_call = False,
                  bp_hint_ret = False, ripafter = r + 4, stack_recover_idx = 0\<rparr>\<rparr>"

definition example_rob :: "rob_list \<Rightarrow> uop_t \<Rightarrow> nat \<Rightarrow> nat \<Rightarrow> ReorderBufferEntry" where
  "example_rob l u p q =
     \<lparr>current_state_list = Some l, uop = u, cycles_left = 0, forward_cycle = 0, cluster = 0,
      fu = 0, lfrqslot = - 1, entry_valid = True, load_store_second_phase = False,
      iqslot = - 1, physreg = Some p, operands = [7, 7, 7, 7], lsq = q\<rparr>"

definition example_lsq :: "bool \<Rightarrow> bool \<Rightarrow> W64 \<Rightarrow> nat \<Rightarrow> LoadStoreQueueEntry" where
  "example_lsq st av pa r =
     \<lparr>data = 0, addrvalid = av, datavalid = False, invalid = False, physaddr = pa,
      bytemask = 0, lsq_rob = Some r, mbtag = - 1, store = st, lsq_entry_valid = True\<rparr>"

definition example_physreg :: "physreg_list \<Rightarrow> nat \<Rightarrow> int \<Rightarrow> PhysicalRegister" where
  "example_physreg l r n =
     \<lparr>pr_current_state_list = Some l, pr_data = 0, flags = 0, pr_rob = r, archreg = 0,
      all_consumers_sourced_from_bypass = True, refcount = n\<rparr>"

text \<open>
  Three uops in flight, each a macro-op of its own: a store at \<open>0x1000\<close> in ROB entry 0,
  a load at \<open>0x1004\<close> in entry 1 that has already issued to physical address \<open>0x200\<close>
  (the 8-byte block at \<open>0x1000\<close>), and a branch at \<open>0x1008\<close> in entry 2 predicted to go
  to \<open>0x2000\<close>. Entry 3 is free and the ROB tail points at it. The counters
  \<open>loads_in_flight\<close> and \<open>stores_in_flight\<close> are 0, as \<open>rename\<close> leaves them.
\<close>

definition example_core :: "unit core" where
  "example_core =
     \<lparr>ROB = [example_rob (rob_ready_to_store_list 0) (example_uop 2 0x1000) 1 0,
             example_rob (rob_issued_list 0) (example_uop 1 0x1004) 2 1,
             example_rob (rob_ready_to_issue_list 0) ((example_uop 3 0x1008)\<lparr>riptaken := 0x2000\<rparr>) 3 0,
             (example_rob rob_free_list (example_uop 0 0) 7 0)\<lparr>entry_valid := False, physreg := None\<rparr>],
      ROB_head = 0, ROB_tail = 3, ROB_count = 3,
      LSQ = [example_lsq True False 0 0, example_lsq False True 0x200 1,
             (example_lsq False False 0 0)\<lparr>lsq_entry_valid := False, lsq_rob := None\<rparr>,
             (example_lsq False False 0 0)\<lparr>lsq_entry_valid := False, lsq_rob := None\<rparr>],
      LSQ_head = 0, LSQ_tail = 2, LSQ_count = 2,
      loads_in_flight = 0, stores_in_flight = 0,
      physregs = [example_physreg physreg_arch_list 0 1, example_physreg physreg_used_list 0 0,
                  example_physreg physreg_used_list 1 0, example_physreg physreg_used_list 2 0,
                  example_physreg physreg_free_list 0 0, example_physreg physreg_free_list 0 0,
                  example_physreg physreg_free_list 0 0, example_physreg physreg_arch_list 0 0],
      specrrt = [0, 0, 0, 0], commitrrt = [0, 0, 0, 0],
      rob_states = (\<lambda>l. if l = rob_ready_to_store_list 0 then [0]
                         else if l = rob_issued_list 0 then [1]
                         else if l = rob_ready_to_issue_list 0 then [2]
                         else if l = rob_free_list then [3] else []),
      physreg_states = (\<lambda>l. if l = physreg_arch_list then [0, 7]
                             else if l = physreg_used_list then [1, 2, 3]
                             else if l = physreg_free_list then [4, 5, 6] else []),
      issueq = [], fetchrip = 0x100C, stall_frontend = False, waiting_for_icache_fill = False,
      fetchq = [example_uop 0 0x100C], current_basic_block = Some 0,
      current_basic_block_transop_index = 4, lsap = [], fu_avail = 1, robs_on_fu = (\<lambda>f. 0),
      stats = (\<lambda>n b. 0), ctx_commitarf = (\<lambda>r. 0), ctx_exception = 0, chk_recovery_rip = 0,
      bytes_in_current_insn_to_commit = 0, total_uops_committed = 0,
      total_user_insns_committed = 0, last_commit_at_cycle = 0, sim_cycle = 0, ext = ()\<rparr>"

text \<open>
  The same machine with the store in entry 0 turned into the high half of a split
  4-byte store, and collaborators for which the page of the high block at \<open>0x1008\<close> is
  not mapped.
\<close>

definition example_split_store :: "unit core" where
  "example_split_store =
     upd_rob 0 (\<lambda>r. r\<lparr>uop := (uop r)\<lparr>cond := LDST_ALIGN_HI, uop_size := 2\<rparr>\<rparr>) example_core"

definition example_unmapped :: "unit extern" where
  "example_unmapped = example_extern\<lparr>asp_fastcheck_write := \<lambda>a. a < 0x1008\<rparr>"

text \<open>Collaborators for which no page is executable.\<close>

definition example_noexec :: "unit extern" where
  "example_noexec = example_extern\<lparr>asp_check_exec := \<lambda>a. False\<rparr>"

text \<open>
  The small machine after a pipeline flush, with three stores waiting in the fetch queue:
  the ROB and the LSQ are empty, every physical register but the null register is free,
  and the rename tables name the null register. \<open>example_renamed\<close> is that machine after
  one call of \<open>rename\<close>, which renames two uops a cycle.
\<close>

definition example_flushed :: "unit core" where
  "example_flushed =
     example_core
       \<lparr>ROB := replicate 4 ((example_rob rob_free_list (example_uop 0 0) 7 0)\<lparr>entry_valid := False, physreg := None\<rparr>),
        ROB_head := 0, ROB_tail := 0, ROB_count := 0,
        LSQ := replicate 4 ((example_lsq False False 0 0)\<lparr>lsq_entry_valid := False, lsq_rob := None\<rparr>),
        LSQ_head := 0, LSQ_tail := 0, LSQ_count := 0, loads_in_flight := 0, stores_in_flight := 0,
        physregs := replicate 7 (example_physreg physreg_free_list 0 0) @ [example_physreg physreg_arch_list 0 0],
        specrrt := [7, 7, 7, 7], commitrrt := [7, 7, 7, 7],
        rob_states := (\<lambda>l. if l = rob_free_list then [0, 1, 2, 3] else []),
        physreg_states := (\<lambda>l. if l = physreg_free_list then [0, 1, 2, 3, 4, 5, 6]
                               else if l = physreg_arch_list then [7] else []),
        fetchrip := 0x100C,
        fetchq := [example_uop 2 0x1000, example_uop 2 0x1004, example_uop 2 0x1008]\<rparr>"

definition example_renamed :: "unit core" where
  "example_renamed = rename example_hw example_extern example_flushed"

text \<open>
  The small machine with a second branch in place of the load: the branch in entry 1, at
  \<open>0x1004\<close>, is predicted to go to \<open>0x3000\<close>, and the branch of entry 2 follows it.
\<close>

definition example_mispredict :: "unit core" where
  "example_mispredict =
     example_core
       \<lparr>ROB := (ROB example_core)[1 := example_rob (rob_issued_list 0) ((example_uop 3 0x1004)\<lparr>riptaken := 0x3000\<rparr>) 2 0],
        LSQ := [example_lsq True False 0 0,
                (example_lsq False False 0 0)\<lparr>lsq_entry_valid := False, lsq_rob := None\<rparr>,
                (example_lsq False False 0 0)\<lparr>lsq_entry_valid := False, lsq_rob := None\<rparr>,
                (example_lsq False False 0 0)\<lparr>lsq_entry_valid := False, lsq_rob := None\<rparr>],
        LSQ_tail := 1, LSQ_count := 1\<rparr>"

text \<open>
  A macro-op of two ALU uops at the head of the ROB, in entries 0 and 1, with the branch
  of the small machine behind it. The second uop has raised an exception: its register
  carries the invalid flag and the exception code, and it waits in the commit queue. In
  \<open>example_commit_waiting\<close> the first uop is still executing; in \<open>example_commit_ready\<close>
  it is ready to commit too.
\<close>

definition example_commit_waiting :: "unit core" where
  "example_commit_waiting =
     example_core
       \<lparr>ROB := [example_rob (rob_issued_list 0) ((example_uop 0 0x1000)\<lparr>eom := False\<rparr>) 1 0,
                example_rob rob_ready_to_commit_queue ((example_uop 0 0x1000)\<lparr>som := False\<rparr>) 2 0,
                example_rob (rob_ready_to_issue_list 0) ((example_uop 3 0x1008)\<lparr>riptaken := 0x2000\<rparr>) 3 0,
                (example_rob rob_free_list (example_uop 0 0) 7 0)\<lparr>entry_valid := False, physreg := None\<rparr>],
        LSQ := replicate 4 ((example_lsq False False 0 0)\<lparr>lsq_entry_valid := False, lsq_rob := None\<rparr>),
        LSQ_tail := 0, LSQ_count := 0, loads_in_flight := 0, stores_in_flight := 0,
        physregs := (physregs example_core)[2 := (example_physreg physreg_used_list 1 0)\<lparr>flags := 8, pr_data := 1\<rparr>],
        rob_states := (\<lambda>l. if l = rob_issued_list 0 then [0]
                           else if l = rob_ready_to_commit_queue then [1]
                           else if l = rob_ready_to_issue_list 0 then [2]
                           else if l = rob_free_list then [3] else []),
        stall_frontend := True\<rparr>"

definition example_commit_ready :: "unit core" where
  "example_commit_ready = rob_changestate 0 rob_ready_to_commit_queue example_commit_waiting"

text \<open>
  The small machine after \<open>complete\<close> has moved the load of entry 1 to the completed
  list, and then after two rounds of \<open>transfer\<close>.
\<close>

definition example_completed :: "unit core" where
  "example_completed = complete 0 example_core"

definition example_forwarded :: "unit core" where
  "example_forwarded = transfer example_hw 0 (transfer example_hw 0 example_completed)"

section \<open>Verified properties\<close>

subsection \<open>Circular indices\<close>

lemma add_index_modulo_inc:
  "i < n \<Longrightarrow> add_index_modulo i 1 n = (if Suc i = n then 0 else Suc i)"
  by (auto simp add: add_index_modulo_def Let_def)

lemma add_index_modulo_dec:
  "i < n \<Longrightarrow> add_index_modulo i (- 1) n = (if i = 0 then n - 1 else i - 1)"
  by (auto simp add: add_index_modulo_def Let_def)

lemma add_index_modulo_inc_less: "i < n \<Longrightarrow> add_index_modulo i 1 n < n"
  by (auto simp add: add_index_modulo_inc)

lemma add_index_modulo_dec_less: "i < n \<Longrightarrow> add_index_modulo i (- 1) n < n"
  by (auto simp add: add_index_modulo_dec)

text \<open>The loops over a circular queue end when the indices are those of entries of the queue.\<close>

lemma ring_fwd_total_aux:
  "i < n \<Longrightarrow> stop < n \<Longrightarrow> (if i \<le> stop then stop - i else stop + n - i) \<le> k \<Longrightarrow>
   \<exists>xs. ring_fwd n k i stop = Some xs \<and> (\<forall>j \<in> set xs. j < n)"
proof (induction k arbitrary: i)
  case 0
  then show ?case by (auto split: if_splits)
next
  case (Suc k)
  show ?case
  proof (cases "i = stop")
    case True
    then show ?thesis by simp
  next
    case False
    let ?i' = "add_index_modulo i 1 n"
    have i': "?i' = (if Suc i = n then 0 else Suc i)" using Suc.prems(1) by (rule add_index_modulo_inc)
    have "?i' < n" using Suc.prems(1) by (rule add_index_modulo_inc_less)
    moreover have "(if ?i' \<le> stop then stop - ?i' else stop + n - ?i') \<le> k"
      using Suc.prems False unfolding i' by (auto split: if_splits)
    ultimately obtain xs where "ring_fwd n k ?i' stop = Some xs" "\<forall>j \<in> set xs. j < n"
      using Suc.IH Suc.prems(2) by blast
    then show ?thesis using False Suc.prems(1) by simp
  qed
qed

lemma ring_fwd_total:
  "i < n \<Longrightarrow> stop < n \<Longrightarrow> \<exists>xs. ring_fwd n n i stop = Some xs \<and> (\<forall>j \<in> set xs. j < n)"
  by (rule ring_fwd_total_aux) (auto split: if_splits)

lemma ring_bwd_incl_total_aux:
  "i < n \<Longrightarrow> stop < n \<Longrightarrow> (if stop \<le> i then i - stop else i + n - stop) < k \<Longrightarrow>
   \<exists>xs. ring_bwd_incl n k i stop = Some xs \<and> (\<forall>j \<in> set xs. j < n) \<and> i \<in> set xs \<and> stop \<in> set xs"
proof (induction k arbitrary: i)
  case 0
  then show ?case by simp
next
  case (Suc k)
  show ?case
  proof (cases "i = stop")
    case True
    then show ?thesis using Suc.prems(1) by simp
  next
    case False
    let ?i' = "add_index_modulo i (- 1) n"
    have i': "?i' = (if i = 0 then n - 1 else i - 1)" using Suc.prems(1) by (rule add_index_modulo_dec)
    have "?i' < n" using Suc.prems(1) by (rule add_index_modulo_dec_less)
    moreover have "(if stop \<le> ?i' then ?i' - stop else ?i' + n - stop) < k"
      using Suc.prems False unfolding i' by (auto split: if_splits)
    ultimately obtain xs where "ring_bwd_incl n k ?i' stop = Some xs" "\<forall>j \<in> set xs. j < n"
        "stop \<in> set xs"
      using Suc.IH Suc.prems(2) by blast
    then show ?thesis using False Suc.prems(1) by simp
  qed
qed

lemma ring_bwd_incl_total:
  "i < n \<Longrightarrow> stop < n \<Longrightarrow>
   \<exists>xs. ring_bwd_incl n n i stop = Some xs \<and> (\<forall>j \<in> set xs. j < n) \<and> i \<in> set xs \<and> stop \<in> set xs"
  by (rule ring_bwd_incl_total_aux) (auto split: if_splits)

lemma ring_search_found:
  "ring_search P n inc k i = Some j \<Longrightarrow> P j"
  by (induction k arbitrary: i) (auto split: if_splits)

lemma ring_search_less:
  "ring_search P n 1 k i = Some j \<Longrightarrow> i < n \<Longrightarrow> j < n"
  by (induction k arbitrary: i) (auto split: if_splits simp add: add_index_modulo_inc_less)

lemma ring_search_dec_less:
  "ring_search P n (- 1) k i = Some j \<Longrightarrow> i < n \<Longrightarrow> j < n"
  by (induction k arbitrary: i) (auto split: if_splits simp add: add_index_modulo_dec_less)

lemma ring_search_here: "P i \<Longrightarrow> ring_search P n inc k i = Some i"
  by (cases k) simp_all

subsection \<open>What the operations do to the ROB array\<close>

lemma list_update_twice_same:
  "xs[i := g ((xs[i := a]) ! i)] = xs[i := g a]"
  by (cases "i < length xs") (simp_all add: not_less list_update_beyond)

lemma nth_list_update_any:
  "(xs[i := f (xs ! i)]) ! j = (if i = j \<and> i < length xs then f (xs ! i) else xs ! j)"
  by (cases "i < length xs") (auto simp add: nth_list_update not_less list_update_beyond)

lemma ROB_add_stat [simp]: "ROB (add_stat n b k s) = ROB s"
  by (simp add: add_stat_def)

lemma ROB_bump [simp]: "ROB (bump n s) = ROB s"
  by (simp add: bump_def)

lemma ROB_upd_rob: "ROB (upd_rob i f s) = (ROB s)[i := f (ROB s ! i)]"
  by (simp add: upd_rob_def)

lemma ROB_upd_lsq [simp]: "ROB (upd_lsq i f s) = ROB s"
  by (simp add: upd_lsq_def)

lemma ROB_upd_physreg [simp]: "ROB (upd_physreg i f s) = ROB s"
  by (simp add: upd_physreg_def)

lemma ROB_rob_changestate:
  "ROB (rob_changestate i q s) = (ROB s)[i := (ROB s ! i)\<lparr>current_state_list := Some q\<rparr>]"
  by (simp add: rob_changestate_def upd_rob_def Let_def)

lemma ROB_physreg_changestate [simp]: "ROB (physreg_changestate i q s) = ROB s"
  by (simp add: physreg_changestate_def Let_def)

lemma ROB_addref [simp]: "ROB (addref hw i s) = ROB s"
  by (simp add: addref_def)

lemma ROB_unref [simp]: "ROB (unref hw i s) = ROB s"
  by (simp add: unref_def)

lemma ROB_physreg_free [simp]: "ROB (physreg_free i s) = ROB s"
  by (simp add: physreg_free_def)

lemma ROB_LSQ_annul [simp]: "ROB (LSQ_annul hw i s) = ROB s"
  by (simp add: LSQ_annul_def LSQ_prepfree_def Let_def)

lemma ROB_LSQ_commit [simp]: "ROB (LSQ_commit hw i s) = ROB s"
  by (simp add: LSQ_commit_def LSQ_prepfree_def Let_def)

lemma ROB_ROB_annul: "ROB (ROB_annul hw i s) = (ROB s)[i := rob_reset (ROB s ! i)]"
  by (simp add: ROB_annul_def ROB_prepfree_def upd_rob_def Let_def)

lemma ROB_issueq_op [simp]: "ROB (issueq_operation_on_cluster c f s) = ROB s"
  by (simp add: issueq_operation_on_cluster_def)

lemma ROB_reset_fetch_unit [simp]: "ROB (reset_fetch_unit r s) = ROB s"
  by (simp add: reset_fetch_unit_def)

lemma ROB_fold_unref [simp]: "ROB (fold (\<lambda>j t. unref hw (g j) t) js s) = ROB s"
  by (induction js arbitrary: s) simp_all

lemma ROB_specrrt_assign [simp]: "ROB (specrrt_assign hw a p s) = ROB s"
  by (simp add: specrrt_assign_def Let_def)

lemma ROB_commitrrt_assign [simp]: "ROB (commitrrt_assign hw a p s) = ROB s"
  by (simp add: commitrrt_assign_def Let_def)

lemma ROB_restore_specrrt [simp]: "ROB (restore_specrrt hw s) = ROB s"
proof -
  have a: "ROB (fold (\<lambda>i t. unref hw (specrrt t ! i) t) js t) = ROB t" for js and t :: "'a core"
    by (induction js arbitrary: t) simp_all
  have b: "ROB (fold (\<lambda>i t. addref hw (specrrt t ! i) t) js t) = ROB t" for js and t :: "'a core"
    by (induction js arbitrary: t) simp_all
  show ?thesis by (simp add: restore_specrrt_def Let_def a b)
qed

lemma ROB_pseudocommit [simp]: "ROB (snd (pseudocommit hw i s)) = ROB s"
  by (simp add: pseudocommit_def Let_def)

lemma ROB_fold_pseudocommit [simp]: "ROB (fold (\<lambda>i t. snd (pseudocommit hw i t)) is s) = ROB s"
  by (induction "is" arbitrary: s) simp_all

lemma ROB_annul_issueq: "ROB (annul_issueq i s) = (ROB s)[i := (ROB s ! i)\<lparr>iqslot := - 1\<rparr>]"
  by (simp add: annul_issueq_def upd_rob_def)

lemma ROB_annul_rob:
  "ROB (annul_rob hw X i s)
     = (ROB s)[i := (rob_reset (ROB s ! i))\<lparr>current_state_list := Some rob_free_list\<rparr>]"
  by (simp add: annul_rob_def Let_def ROB_rob_changestate ROB_ROB_annul list_update_twice_same)

subsection \<open>What the operations leave alone\<close>

lemma nth_list_update_all:
  "(xs[i := y]) ! j = (if i = j \<and> i < length xs then y else xs ! j)"
  by (cases "i < length xs") (auto simp add: not_less list_update_beyond)

lemma spec_add_stat [simp]: "speculative_state (add_stat n b k s) = speculative_state s"
  by (simp add: speculative_state_def add_stat_def)

lemma spec_bump [simp]: "speculative_state (bump n s) = speculative_state s"
  by (simp add: bump_def)

lemma spec_upd_rob [simp]: "speculative_state (upd_rob i f s) = speculative_state s"
  by (simp add: speculative_state_def upd_rob_def)

lemma spec_upd_lsq [simp]: "speculative_state (upd_lsq i f s) = speculative_state s"
  by (simp add: speculative_state_def upd_lsq_def)

lemma spec_upd_physreg [simp]: "speculative_state (upd_physreg i f s) = speculative_state s"
  by (simp add: speculative_state_def upd_physreg_def)

lemma spec_rob_changestate [simp]: "speculative_state (rob_changestate i q s) = speculative_state s"
  by (simp add: speculative_state_def rob_changestate_def upd_rob_def Let_def)

lemma spec_physreg_changestate [simp]: "speculative_state (physreg_changestate i q s) = speculative_state s"
  by (simp add: speculative_state_def physreg_changestate_def upd_physreg_def Let_def)

lemma spec_issueq_op [simp]: "speculative_state (issueq_operation_on_cluster c f s) = speculative_state s"
  by (simp add: speculative_state_def issueq_operation_on_cluster_def)

lemma spec_issue_source [simp]: "speculative_state (issue_source c p s) = speculative_state s"
  by (simp add: issue_source_def)

lemma spec_release [simp]: "speculative_state (release idx s) = speculative_state s"
  by (simp add: release_def)

lemma spec_addref [simp]: "speculative_state (addref hw i s) = speculative_state s"
  by (simp add: addref_def)

lemma spec_unref [simp]: "speculative_state (unref hw i s) = speculative_state s"
  by (simp add: unref_def)

lemma spec_physreg_free [simp]: "speculative_state (physreg_free i s) = speculative_state s"
  by (simp add: physreg_free_def)

lemma ROB_issue_source [simp]: "ROB (issue_source c p s) = ROB s"
  by (simp add: issue_source_def)

lemma ROB_release: "ROB (release idx s) = (ROB s)[idx := (ROB s ! idx)\<lparr>iqslot := - 1\<rparr>]"
  by (simp add: release_def upd_rob_def)

text \<open>The statistics counters.\<close>

lemma stats_add_stat:
  "stats (add_stat n b k s) m c = (if m = n \<and> c = b then stats s m c + k else stats s m c)"
  by (simp add: add_stat_def)

lemma stats_bump:
  "stats (bump n s) m c = (if m = n \<and> c = 0 then stats s m c + 1 else stats s m c)"
  by (simp add: bump_def stats_add_stat)

lemma stats_upd_rob [simp]: "stats (upd_rob i f s) = stats s"
  by (simp add: upd_rob_def)

lemma stats_upd_lsq [simp]: "stats (upd_lsq i f s) = stats s"
  by (simp add: upd_lsq_def)

lemma stats_upd_physreg [simp]: "stats (upd_physreg i f s) = stats s"
  by (simp add: upd_physreg_def)

lemma stats_rob_changestate [simp]: "stats (rob_changestate i q s) = stats s"
  by (simp add: rob_changestate_def Let_def)

lemma stats_issueq_op [simp]: "stats (issueq_operation_on_cluster c f s) = stats s"
  by (simp add: issueq_operation_on_cluster_def)

lemma stats_release [simp]: "stats (release idx s) = stats s"
  by (simp add: release_def)

lemma stats_issue_source:
  "m \<noteq> ''issue_source_counter'' \<Longrightarrow> stats (issue_source c p s) m = stats s m"
  by (simp add: issue_source_def stats_add_stat fun_eq_iff)

subsection \<open>Issue of a branch\<close>

lemma physregs_add_stat [simp]: "physregs (add_stat n b k s) = physregs s"
  by (simp add: add_stat_def)

lemma physregs_bump [simp]: "physregs (bump n s) = physregs s"
  by (simp add: bump_def)

lemma physregs_upd_rob [simp]: "physregs (upd_rob i f s) = physregs s"
  by (simp add: upd_rob_def)

lemma physregs_rob_changestate [simp]: "physregs (rob_changestate i q s) = physregs s"
  by (simp add: rob_changestate_def Let_def)

lemma physregs_issueq_op [simp]: "physregs (issueq_operation_on_cluster c f s) = physregs s"
  by (simp add: issueq_operation_on_cluster_def)

lemma physregs_release [simp]: "physregs (release idx s) = physregs s"
  by (simp add: release_def)

lemma physregs_upd_physreg: "physregs (upd_physreg i f s) = (physregs s)[i := f (physregs s ! i)]"
  by (simp add: upd_physreg_def)

lemma map_list_update_same: "f y = f (xs ! i) \<Longrightarrow> map f (xs[i := y]) = map f xs"
  by (cases "i < length xs") (simp_all add: map_update list_update_beyond not_less list_update_same_conv)

lemma valid_upd_rob: "(\<And>r. entry_valid (f r) = entry_valid r) \<Longrightarrow> map entry_valid (ROB (upd_rob i f s)) = map entry_valid (ROB s)"
  by (simp add: ROB_upd_rob map_list_update_same)

lemma valid_rob_changestate [simp]: "map entry_valid (ROB (rob_changestate i q s)) = map entry_valid (ROB s)"
  by (simp add: ROB_rob_changestate map_list_update_same)

lemma valid_release [simp]: "map entry_valid (ROB (release i s)) = map entry_valid (ROB s)"
  by (simp add: ROB_release map_list_update_same)

lemma uop_upd_rob: "(\<And>r. uop (f r) = uop r) \<Longrightarrow> uop (ROB (upd_rob i f s) ! j) = uop (ROB s ! j)"
  by (simp add: ROB_upd_rob nth_list_update_all)

lemma uop_rob_changestate [simp]: "uop (ROB (rob_changestate i q s) ! j) = uop (ROB s ! j)"
  by (simp add: ROB_rob_changestate nth_list_update_all)

lemma physreg_rob_changestate [simp]: "physreg (ROB (rob_changestate i q s) ! j) = physreg (ROB s ! j)"
  by (simp add: ROB_rob_changestate nth_list_update_all)

lemma uop_release [simp]: "uop (ROB (release i s) ! j) = uop (ROB s ! j)"
  by (simp add: ROB_release nth_list_update_all)

lemma issue_writeback_predicted:
  assumes br: "isbranch hw (opcode (uop (ROB s ! idx)))"
    and p: "physreg (ROB s ! idx) = Some p" "p < length (physregs s)"
    and d: "rdflags AND FLAG_INV hw \<noteq> 0 \<or> rddata = riptaken (uop (ROB s ! idx))"
  shows "\<exists>s'. issue_writeback hw X idx rddata rdflags s = Some (1, s')
           \<and> speculative_state s' = speculative_state s
           \<and> map entry_valid (ROB s') = map entry_valid (ROB s)
           \<and> stats s' ''branchpred_total_correct'' 0 =
               stats s ''branchpred_total_correct'' 0 + (if rdflags AND FLAG_INV hw = 0 then 1 else 0)
           \<and> stats s' ''issue_result_exception'' 0 =
               stats s ''issue_result_exception'' 0 + (if rdflags AND FLAG_INV hw = 0 then 0 else 1)
           \<and> stats s' ''branchpred_total_mispred'' 0 = stats s ''branchpred_total_mispred'' 0"
proof (cases "rdflags AND FLAG_INV hw = 0")
  case True
  with d have eq: "rddata = riptaken (uop (ROB s ! idx))" by simp
  show ?thesis
    using br p True
    unfolding issue_writeback_def Let_def eq
    by (simp add: pr_valid_def physregs_upd_physreg ROB_upd_physreg stats_bump stats_add_stat speculative_state_def [of "_\<lparr>stall_frontend := True\<rparr>"])
next
  case False
  have sp: "\<And>t. speculative_state (t\<lparr>stall_frontend := True\<rparr>) = speculative_state t"
    by (simp add: speculative_state_def)
  have rl: "\<And>t. release idx (t\<lparr>stall_frontend := True\<rparr>) = (release idx t)\<lparr>stall_frontend := True\<rparr>"
    by (simp add: release_def upd_rob_def issueq_operation_on_cluster_def)
  show ?thesis
    using br p False
    unfolding issue_writeback_def Let_def
    by (simp add: pr_valid_def physregs_upd_physreg ROB_upd_physreg stats_bump stats_add_stat sp rl valid_upd_rob)
qed

lemma length_physregs_issue_source [simp]: "length (physregs (issue_source c p s)) = length (physregs s)"
  by (simp add: issue_source_def physregs_upd_physreg)

lemma valid_issue_source [simp]: "map entry_valid (ROB (issue_source c p s)) = map entry_valid (ROB s)"
  by simp

lemma issue_predicted_branch:
  assumes fu: "opinfo_fu hw (opcode (uop (ROB s ! idx))) AND clusters_fu_mask hw (cluster (ROB s ! idx))
                 AND fu_avail s \<noteq> 0"
    and br: "isbranch hw (opcode (uop (ROB s ! idx)))"
    and nld: "\<not> isload hw (opcode (uop (ROB s ! idx)))"
    and nst: "\<not> isstore hw (opcode (uop (ROB s ! idx)))"
    and inv: "FLAG_INV hw \<noteq> 0"
    and p: "physreg (ROB s ! idx) = Some p" "p < length (physregs s)"
    and noprop: "(in_raflags (issue_input hw (ROB s ! idx) (physregs s))
                  OR in_rbflags (issue_input hw (ROB s ! idx) (physregs s))
                  OR in_rcflags (issue_input hw (ROB s ! idx) (physregs s))) AND FLAG_INV hw = 0"
    and exec: "call_exec_func X (uop (ROB s ! idx)) (issue_input hw (ROB s ! idx) (physregs s))
                 = (riptaken (uop (ROB s ! idx)), rdflags)"
  shows "\<exists>s'. issue hw X idx s = Some (1, s')
           \<and> speculative_state s' = speculative_state s
           \<and> map entry_valid (ROB s') = map entry_valid (ROB s)
           \<and> stats s' ''branchpred_total_mispred'' 0 = stats s ''branchpred_total_mispred'' 0
           \<and> stats s' ''branchpred_total_correct'' 0 =
               stats s ''branchpred_total_correct'' 0 +
                 (if (isbarrier hw (opcode (uop (ROB s ! idx))) \<or> asp_check_exec X (riptaken (uop (ROB s ! idx))))
                     \<and> rdflags AND FLAG_INV hw = 0 then 1 else 0)
           \<and> stats s' ''issue_result_exception'' 0 =
               stats s ''issue_result_exception'' 0 +
                 (if (isbarrier hw (opcode (uop (ROB s ! idx))) \<or> asp_check_exec X (riptaken (uop (ROB s ! idx))))
                     \<and> rdflags AND FLAG_INV hw = 0 then 0 else 1)"
proof -
  define r where "r = ROB s ! idx"
  define u where "u = uop r"
  define f where "f = lsbindex (opinfo_fu hw (opcode u) AND clusters_fu_mask hw (cluster r) AND fu_avail s)"
  define s2 where "s2 = (bump ''issue_total_uops'' s)\<lparr>fu_avail := fu_avail (bump ''issue_total_uops'' s) AND NOT (push_bit f 1),
                             robs_on_fu := (robs_on_fu (bump ''issue_total_uops'' s))(f := idx)\<rparr>"
  define s4 where "s4 = rob_changestate idx (rob_issued_list (cluster r))
                          (upd_rob idx (\<lambda>r. r\<lparr>fu := f, cycles_left := w16s (opinfo_latency hw (opcode u))\<rparr>) s2)"
  define s8 where "s8 = add_stat ''issue_opclass_histogram'' (opclassof hw (opcode u)) 1
                          (issue_source (rcimm u = 0 \<and> nonnull hw (operands r ! RC)) (operands r ! RC)
                          (issue_source (rbimm u = 0 \<and> nonnull hw (operands r ! RB)) (operands r ! RB)
                          (issue_source (nonnull hw (operands r ! RA)) (operands r ! RA) s4)))"
  have s2_spec: "speculative_state s2 = speculative_state s"
    by (simp add: s2_def speculative_state_def bump_def add_stat_def)
  have s2_regs: "physregs s2 = physregs s" by (simp add: s2_def)
  have s2_rob: "ROB s2 = ROB s" by (simp add: s2_def ROB_bump)
  have s2_stats: "stats s2 = stats (bump ''issue_total_uops'' s)" by (simp add: s2_def)
  have s4_regs: "physregs s4 = physregs s" by (simp add: s4_def s2_regs)
  have s4_spec: "speculative_state s4 = speculative_state s" by (simp add: s4_def s2_spec)
  have s4_valid: "map entry_valid (ROB s4) = map entry_valid (ROB s)"
    by (simp add: s4_def valid_upd_rob s2_rob)
  have s4_uop: "uop (ROB s4 ! idx) = u"
    by (simp add: s4_def uop_upd_rob s2_rob u_def r_def)
  have s4_preg: "physreg (ROB s4 ! idx) = Some p"
    using p(1) by (simp add: s4_def ROB_upd_rob nth_list_update_all s2_rob)
  have s4_stats: "\<And>m. m \<noteq> ''issue_total_uops'' \<Longrightarrow> stats s4 m 0 = stats s m 0"
    by (simp add: s4_def s2_stats stats_bump)
  have s8_spec: "speculative_state s8 = speculative_state s" by (simp add: s8_def s4_spec)
  have s8_valid: "map entry_valid (ROB s8) = map entry_valid (ROB s)"
    by (simp add: s8_def ROB_add_stat s4_valid)
  have s8_uop: "uop (ROB s8 ! idx) = u" by (simp add: s8_def ROB_add_stat s4_uop)
  have s8_preg: "physreg (ROB s8 ! idx) = Some p" by (simp add: s8_def ROB_add_stat s4_preg)
  have s8_len: "p < length (physregs s8)" using p(2) by (simp add: s8_def s4_regs)
  have s8_stats: "\<And>m. m \<noteq> ''issue_total_uops'' \<Longrightarrow> m \<noteq> ''issue_source_counter''
                    \<Longrightarrow> m \<noteq> ''issue_opclass_histogram'' \<Longrightarrow> stats s8 m 0 = stats s m 0"
    by (simp add: s8_def stats_add_stat stats_issue_source s4_stats)
  have br8: "isbranch hw (opcode (uop (ROB s8 ! idx)))" using br by (simp add: s8_uop u_def r_def)
  let ?ok = "(isbarrier hw (opcode u) \<or> asp_check_exec X (riptaken u)) \<and> rdflags AND FLAG_INV hw = 0"
  define rddata where "rddata = (if \<not> isbarrier hw (opcode u) \<and> \<not> asp_check_exec X (riptaken u)
                                 then EXCEPTION_PageFaultOnExec hw else riptaken u)"
  define rdfl where "rdfl = (if \<not> isbarrier hw (opcode u) \<and> \<not> asp_check_exec X (riptaken u)
                               then rdflags OR FLAG_INV hw else rdflags)"
  have flinv: "(rdflags OR FLAG_INV hw) AND FLAG_INV hw = FLAG_INV hw"
    by (simp add: bit_eq_iff bit_simps)
  have ok: "(rdfl AND FLAG_INV hw = 0) = ?ok"
    using inv by (auto simp add: rdfl_def flinv)
  have d: "rdfl AND FLAG_INV hw \<noteq> 0 \<or> rddata = riptaken (uop (ROB s8 ! idx))"
    using inv by (auto simp add: rdfl_def rddata_def flinv s8_uop)
  have iss: "issue hw X idx s = issue_writeback hw X idx rddata rdfl s8"
    using fu nld nst br noprop exec
    unfolding issue_def Let_def s8_def s4_def s2_def f_def u_def r_def rddata_def rdfl_def
    by (simp add: s2_regs [unfolded s2_def] s4_regs [unfolded s4_def s2_def])
  from issue_writeback_predicted [OF br8 s8_preg s8_len d, of X]
  obtain s' where s': "issue_writeback hw X idx rddata rdfl s8 = Some (1, s')"
      "speculative_state s' = speculative_state s8"
      "map entry_valid (ROB s') = map entry_valid (ROB s8)"
      "stats s' ''branchpred_total_correct'' 0 =
         stats s8 ''branchpred_total_correct'' 0 + (if rdfl AND FLAG_INV hw = 0 then 1 else 0)"
      "stats s' ''issue_result_exception'' 0 =
         stats s8 ''issue_result_exception'' 0 + (if rdfl AND FLAG_INV hw = 0 then 0 else 1)"
      "stats s' ''branchpred_total_mispred'' 0 = stats s8 ''branchpred_total_mispred'' 0"
    by blast
  show ?thesis
    apply (rule exI [of _ s'])
    unfolding iss s'(1) s'(2) s'(3) s'(4) s'(5) s'(6) s8_spec s8_valid ok
    by (simp add: s8_stats u_def r_def)
qed

subsection \<open>The small machine\<close>

lemmas example_defs =
  example_hw_def example_extern_def example_core_def example_rob_def example_uop_def
  example_physreg_def example_lsq_def

subsection \<open>Annulment\<close>

lemma ring_search_total_inc_aux:
  "i < n \<Longrightarrow> j < n \<Longrightarrow> P j \<Longrightarrow> (if i \<le> j then j - i else j + n - i) \<le> k \<Longrightarrow>
   \<exists>m. ring_search P n 1 k i = Some m"
proof (induction k arbitrary: i)
  case 0
  then show ?case by (auto split: if_splits)
next
  case (Suc k)
  show ?case
  proof (cases "P i")
    case True
    then show ?thesis by simp
  next
    case False
    then have ne: "i \<noteq> j" using Suc.prems(3) by auto
    let ?i' = "add_index_modulo i 1 n"
    have i': "?i' = (if Suc i = n then 0 else Suc i)" using Suc.prems(1) by (rule add_index_modulo_inc)
    have "?i' < n" using Suc.prems(1) by (rule add_index_modulo_inc_less)
    moreover have "(if ?i' \<le> j then j - ?i' else j + n - ?i') \<le> k"
      using Suc.prems(1,2,4) ne unfolding i' by (auto split: if_splits)
    ultimately obtain m where "ring_search P n 1 k ?i' = Some m"
      using Suc.IH Suc.prems(2,3) by blast
    then show ?thesis using False by simp
  qed
qed

lemma ring_search_total_inc:
  "i < n \<Longrightarrow> j < n \<Longrightarrow> P j \<Longrightarrow> \<exists>m. ring_search P n 1 n i = Some m"
  by (rule ring_search_total_inc_aux) (auto split: if_splits)

lemma ring_search_total_dec_aux:
  "i < n \<Longrightarrow> j < n \<Longrightarrow> P j \<Longrightarrow> (if j \<le> i then i - j else i + n - j) \<le> k \<Longrightarrow>
   \<exists>m. ring_search P n (- 1) k i = Some m"
proof (induction k arbitrary: i)
  case 0
  then show ?case by (auto split: if_splits)
next
  case (Suc k)
  show ?case
  proof (cases "P i")
    case True
    then show ?thesis by simp
  next
    case False
    then have ne: "i \<noteq> j" using Suc.prems(3) by auto
    let ?i' = "add_index_modulo i (- 1) n"
    have i': "?i' = (if i = 0 then n - 1 else i - 1)" using Suc.prems(1) by (rule add_index_modulo_dec)
    have "?i' < n" using Suc.prems(1) by (rule add_index_modulo_dec_less)
    moreover have "(if j \<le> ?i' then ?i' - j else ?i' + n - j) \<le> k"
      using Suc.prems(1,2,4) ne unfolding i' by (auto split: if_splits)
    ultimately obtain m where "ring_search P n (- 1) k ?i' = Some m"
      using Suc.IH Suc.prems(2,3) by blast
    then show ?thesis using False by simp
  qed
qed

lemma ring_search_total_dec:
  "i < n \<Longrightarrow> j < n \<Longrightarrow> P j \<Longrightarrow> \<exists>m. ring_search P n (- 1) n i = Some m"
  by (rule ring_search_total_dec_aux) (auto split: if_splits)

text \<open>The head of the ROB and the alias predictor are not written by an annulment.\<close>

lemma fixed_add_stat [simp]: "ROB_head (add_stat n b k s) = ROB_head s" "lsap (add_stat n b k s) = lsap s"
  by (simp_all add: add_stat_def)

lemma fixed_bump [simp]: "ROB_head (bump n s) = ROB_head s" "lsap (bump n s) = lsap s"
  by (simp_all add: bump_def)

lemma fixed_upd_rob [simp]: "ROB_head (upd_rob i f s) = ROB_head s" "lsap (upd_rob i f s) = lsap s"
  by (simp_all add: upd_rob_def)

lemma fixed_upd_lsq [simp]: "ROB_head (upd_lsq i f s) = ROB_head s" "lsap (upd_lsq i f s) = lsap s"
  by (simp_all add: upd_lsq_def)

lemma fixed_upd_physreg [simp]:
  "ROB_head (upd_physreg i f s) = ROB_head s" "lsap (upd_physreg i f s) = lsap s"
  by (simp_all add: upd_physreg_def)

lemma fixed_rob_changestate [simp]:
  "ROB_head (rob_changestate i q s) = ROB_head s" "lsap (rob_changestate i q s) = lsap s"
  by (simp_all add: rob_changestate_def Let_def)

lemma fixed_physreg_changestate [simp]:
  "ROB_head (physreg_changestate i q s) = ROB_head s" "lsap (physreg_changestate i q s) = lsap s"
  by (simp_all add: physreg_changestate_def Let_def)

lemma fixed_issueq_op [simp]:
  "ROB_head (issueq_operation_on_cluster c f s) = ROB_head s"
  "lsap (issueq_operation_on_cluster c f s) = lsap s"
  by (simp_all add: issueq_operation_on_cluster_def)

lemma fixed_addref [simp]: "ROB_head (addref hw i s) = ROB_head s" "lsap (addref hw i s) = lsap s"
  by (simp_all add: addref_def)

lemma fixed_unref [simp]: "ROB_head (unref hw i s) = ROB_head s" "lsap (unref hw i s) = lsap s"
  by (simp_all add: unref_def)

lemma fixed_physreg_free [simp]:
  "ROB_head (physreg_free i s) = ROB_head s" "lsap (physreg_free i s) = lsap s"
  by (simp_all add: physreg_free_def)

lemma fixed_LSQ_annul [simp]:
  "ROB_head (LSQ_annul hw i s) = ROB_head s" "lsap (LSQ_annul hw i s) = lsap s"
  by (simp_all add: LSQ_annul_def LSQ_prepfree_def Let_def)

lemma fixed_ROB_annul [simp]:
  "ROB_head (ROB_annul hw i s) = ROB_head s" "lsap (ROB_annul hw i s) = lsap s"
  by (simp_all add: ROB_annul_def ROB_prepfree_def Let_def)

lemma fixed_annul_issueq [simp]:
  "ROB_head (annul_issueq i s) = ROB_head s" "lsap (annul_issueq i s) = lsap s"
  by (simp_all add: annul_issueq_def)

lemma fixed_fold_annul_issueq [simp]:
  "ROB_head (fold annul_issueq is s) = ROB_head s" "lsap (fold annul_issueq is s) = lsap s"
  by (induction "is" arbitrary: s) simp_all

lemma fixed_fold_unref [simp]:
  "ROB_head (fold (\<lambda>j t. unref hw (g j) t) js s) = ROB_head s"
  "lsap (fold (\<lambda>j t. unref hw (g j) t) js s) = lsap s"
  by (induction js arbitrary: s) simp_all

lemma fixed_specrrt_assign [simp]:
  "ROB_head (specrrt_assign hw a p s) = ROB_head s" "lsap (specrrt_assign hw a p s) = lsap s"
  by (simp_all add: specrrt_assign_def Let_def)

lemma fixed_restore_specrrt [simp]:
  "ROB_head (restore_specrrt hw s) = ROB_head s" "lsap (restore_specrrt hw s) = lsap s"
proof -
  have a: "ROB_head (fold (\<lambda>i t. unref hw (specrrt t ! i) t) js t) = ROB_head t
           \<and> lsap (fold (\<lambda>i t. unref hw (specrrt t ! i) t) js t) = lsap t" for js and t :: "'a core"
    by (induction js arbitrary: t) simp_all
  have b: "ROB_head (fold (\<lambda>i t. addref hw (specrrt t ! i) t) js t) = ROB_head t
           \<and> lsap (fold (\<lambda>i t. addref hw (specrrt t ! i) t) js t) = lsap t" for js and t :: "'a core"
    by (induction js arbitrary: t) simp_all
  show "ROB_head (restore_specrrt hw s) = ROB_head s" "lsap (restore_specrrt hw s) = lsap s"
    by (simp_all add: restore_specrrt_def Let_def a b)
qed

lemma fixed_pseudocommit [simp]:
  "ROB_head (snd (pseudocommit hw i s)) = ROB_head s" "lsap (snd (pseudocommit hw i s)) = lsap s"
  by (simp_all add: pseudocommit_def Let_def)

lemma fixed_fold_pseudocommit [simp]:
  "ROB_head (fold (\<lambda>i t. snd (pseudocommit hw i t)) is s) = ROB_head s"
  "lsap (fold (\<lambda>i t. snd (pseudocommit hw i t)) is s) = lsap s"
  by (induction "is" arbitrary: s) simp_all

lemma fixed_annul_rob [simp]:
  "ROB_head (annul_rob hw X i s) = ROB_head s" "lsap (annul_rob hw X i s) = lsap s"
  by (simp_all add: annul_rob_def Let_def)

lemma fixed_fold_annul_rob [simp]:
  "ROB_head (fold (annul_rob hw X) is s) = ROB_head s" "lsap (fold (annul_rob hw X) is s) = lsap s"
  by (induction "is" arbitrary: s) simp_all

text \<open>No pass of an annulment writes the uop of a ROB entry.\<close>

lemma uop_annul_issueq [simp]: "uop (ROB (annul_issueq i s) ! j) = uop (ROB s ! j)"
  by (simp add: ROB_annul_issueq nth_list_update_all)

lemma uop_fold_annul_issueq [simp]: "uop (ROB (fold annul_issueq is s) ! j) = uop (ROB s ! j)"
  by (induction "is" arbitrary: s) simp_all

lemma uop_annul_rob [simp]: "uop (ROB (annul_rob hw X i s) ! j) = uop (ROB s ! j)"
  by (simp add: ROB_annul_rob nth_list_update_all rob_reset_def)

lemma uop_fold_annul_rob [simp]: "uop (ROB (fold (annul_rob hw X) is s) ! j) = uop (ROB s ! j)"
  by (induction "is" arbitrary: s) simp_all

text \<open>
  \<open>annul\<close> returns when the indices are those of ROB entries and the ROB holds a SOM and
  an EOM uop: what it returns, in terms of the state it is called in.
\<close>

lemma annul_returns:
  assumes idx: "idx < ROB_SIZE hw" and head: "ROB_head s < ROB_SIZE hw" and tail: "ROB_tail s < ROB_SIZE hw"
    and som: "ring_search (\<lambda>j. som (uop (ROB s ! j))) (ROB_SIZE hw) (- 1) (ROB_SIZE hw) idx = Some somidx"
    and eom: "ring_search (\<lambda>j. eom (uop (ROB s ! j))) (ROB_SIZE hw) 1 (ROB_SIZE hw) idx = Some eomidx"
  shows "\<exists>s'. annul hw X keep idx s
                = Some (let startidx = (if keep then add_index_modulo eomidx 1 (ROB_SIZE hw) else somidx)
                        in if startidx = ROB_tail s then rip (uop (ROB s ! idx))
                           else if keep then riptaken (uop (ROB s ! startidx))
                           else rip (uop (ROB s ! startidx)), s')"
proof -
  let ?n = "ROB_SIZE hw"
  define startidx where "startidx = (if keep then add_index_modulo eomidx 1 ?n else somidx)"
  have "somidx < ?n" using som idx by (rule ring_search_dec_less)
  moreover have "eomidx < ?n" using eom idx by (rule ring_search_less)
  ultimately have st: "startidx < ?n" by (simp add: startidx_def add_index_modulo_inc_less)
  have en: "add_index_modulo (ROB_tail s) (- 1) ?n < ?n" using tail by (rule add_index_modulo_dec_less)
  obtain idxs where idxs: "ring_bwd_incl ?n ?n (add_index_modulo (ROB_tail s) (- 1) ?n) startidx = Some idxs"
    using ring_bwd_incl_total [OF en st] by blast
  obtain walk where walk: "ring_fwd ?n ?n (ROB_head s) startidx = Some walk"
    using ring_fwd_total [OF head st] by blast
  show ?thesis
    unfolding annul_def som eom option.case Let_def startidx_def [symmetric]
    by (simp add: idxs walk)
qed

lemma annul_after_last:
  assumes "eom (uop (ROB s ! idx))"
    and "ring_search (\<lambda>j. som (uop (ROB s ! j))) (ROB_SIZE hw) (- 1) (ROB_SIZE hw) idx = Some somidx"
    and "add_index_modulo idx 1 (ROB_SIZE hw) = ROB_tail s"
  shows "annul hw X True idx s = Some (rip (uop (ROB s ! idx)), s)"
proof -
  have "ring_search (\<lambda>j. eom (uop (ROB s ! j))) (ROB_SIZE hw) 1 (ROB_SIZE hw) idx = Some idx"
    using assms(1) by (rule ring_search_here)
  then show ?thesis using assms(2,3) by (simp add: annul_def)
qed

subsection \<open>A store that finds a later load to its block\<close>

lemma annul_including_state:
  assumes som: "ring_search (\<lambda>j. som (uop (ROB s ! j))) (ROB_SIZE hw) (- 1) (ROB_SIZE hw) idx = Some somidx"
    and eom: "ring_search (\<lambda>j. eom (uop (ROB s ! j))) (ROB_SIZE hw) 1 (ROB_SIZE hw) idx = Some eomidx"
    and ne: "somidx \<noteq> ROB_tail s"
    and idxs: "ring_bwd_incl (ROB_SIZE hw) (ROB_SIZE hw) (add_index_modulo (ROB_tail s) (- 1) (ROB_SIZE hw)) somidx
                 = Some idxs"
    and walk: "ring_fwd (ROB_SIZE hw) (ROB_SIZE hw) (ROB_head s) somidx = Some walk"
  shows "annul hw X False idx s
           = Some (rip (uop (ROB s ! somidx)),
                   fold (annul_rob hw X) idxs
                     (fold (\<lambda>i t. snd (pseudocommit hw i t)) walk
                        (restore_specrrt hw (fold annul_issueq idxs s))))"
  unfolding annul_def som eom option.case Let_def
  using ne by (simp add: idxs walk)

text \<open>The entries an annulment walks over end up free, and those freed before stay free.\<close>

lemma freed_fold_annul_rob:
  assumes "j < length (ROB s)"
    and "j \<in> set is \<or> (\<not> entry_valid (ROB s ! j) \<and> current_state_list (ROB s ! j) = Some rob_free_list)"
  shows "\<not> entry_valid (ROB (fold (annul_rob hw X) is s) ! j)
         \<and> current_state_list (ROB (fold (annul_rob hw X) is s) ! j) = Some rob_free_list"
  using assms
proof (induction "is" arbitrary: s)
  case Nil
  then show ?case by simp
next
  case (Cons i "is")
  have len: "j < length (ROB (annul_rob hw X i s))" using Cons.prems(1) by (simp add: ROB_annul_rob)
  have "j \<in> set is \<or> (\<not> entry_valid (ROB (annul_rob hw X i s) ! j)
          \<and> current_state_list (ROB (annul_rob hw X i s) ! j) = Some rob_free_list)"
    using Cons.prems by (auto simp add: ROB_annul_rob nth_list_update_all rob_reset_def)
  from Cons.IH [OF len this] show ?case by simp
qed

lemma spec_issuestore_resolve: "speculative_state (issuestore_resolve hw idx va vb s) = speculative_state s"
  by (simp add: issuestore_resolve_def Let_def split: prod.split)

lemma ROB_issuestore_resolve: "ROB (issuestore_resolve hw idx va vb s) = ROB s"
  by (simp add: issuestore_resolve_def Let_def split: prod.split)

lemma lsq_rob_issuestore_resolve:
  "lsq_rob (LSQ (issuestore_resolve hw idx va vb s) ! j) = lsq_rob (LSQ s ! j)"
  by (simp add: issuestore_resolve_def Let_def add_stat_def upd_lsq_def nth_list_update_all split: prod.split)

lemma length_ROB_fold_annul_issueq [simp]: "length (ROB (fold annul_issueq is s)) = length (ROB s)"
  by (induction "is" arbitrary: s) (simp_all add: ROB_annul_issueq)

lemma issuestore_finds_aliased_load:
  assumes len: "length (ROB s) = ROB_SIZE hw"
    and idx: "idx < ROB_SIZE hw" and head: "ROB_head s < ROB_SIZE hw" and tail: "ROB_tail s < ROB_SIZE hw"
    and li: "lsq (ROB s ! idx) < length (LSQ s)"
    and noexc: "issuestore_exception hw X (uop (ROB s ! idx)) va vb = 0"
    and scan: "store_scan_backward hw (lsq (ROB s ! idx)) (issuestore_resolve hw idx va vb s) = Some sfra"
    and ready: "case sfra of None \<Rightarrow> True
                | Some i \<Rightarrow> addrvalid (LSQ (issuestore_resolve hw idx va vb s) ! i)
                            \<and> datavalid (LSQ (issuestore_resolve hw idx va vb s) ! i)"
    and ld: "load_scan_forward hw (lsq (ROB s ! idx)) (issuestore_resolve hw idx va vb s) = Some (Some ldbuf)"
    and ldrob: "lsq_rob (LSQ s ! ldbuf) = Some ldidx"
    and som: "ring_search (\<lambda>j. som (uop (ROB s ! j))) (ROB_SIZE hw) (- 1) (ROB_SIZE hw) idx = Some somidx"
    and eom: "k < ROB_SIZE hw" "eom (uop (ROB s ! k))"
    and ne: "somidx \<noteq> ROB_tail s"
    and idxs: "ring_bwd_incl (ROB_SIZE hw) (ROB_SIZE hw) (add_index_modulo (ROB_tail s) (- 1) (ROB_SIZE hw)) somidx
                 = Some idxs"
    and mem: "idx \<in> set idxs" "ldidx \<in> set idxs"
  shows "\<exists>t s3 s'.
           t = (upd_lsq (lsq (ROB s ! idx)) (mark_aliased hw) (issuestore_resolve hw idx va vb s))
                 \<lparr>lsap := lsap_select (rip (uop (ROB s ! ldidx))) (lsap s)\<rparr>
         \<and> invalid (LSQ t ! lsq (ROB s ! idx))
         \<and> data (LSQ t ! lsq (ROB s ! idx)) = EXCEPTION_LoadStoreAliasing hw
         \<and> annul_after_and_including hw X idx t = Some (rip (uop (ROB s ! somidx)), s3)
         \<and> s' = bump ''store_issue_ordering'' (reset_fetch_unit (rip (uop (ROB s ! idx))) s3)
         \<and> issuestore hw X idx va vb vc True s = Some (ISSUE_MISSPECULATED, s')
         \<and> lsap s' = lsap_select (rip (uop (ROB s ! ldidx))) (lsap s)
         \<and> fetchrip s' = rip (uop (ROB s ! idx)) \<and> fetchq s' = []
         \<and> (\<forall>j \<in> set idxs. \<not> entry_valid (ROB s' ! j) \<and> current_state_list (ROB s' ! j) = Some rob_free_list)
         \<and> \<not> entry_valid (ROB s' ! idx) \<and> \<not> entry_valid (ROB s' ! ldidx)"
proof -
  let ?n = "ROB_SIZE hw"
  let ?li = "lsq (ROB s ! idx)"
  define s2 where "s2 = issuestore_resolve hw idx va vb s"
  define t where "t = (upd_lsq ?li (mark_aliased hw) s2)\<lparr>lsap := lsap_select (rip (uop (ROB s ! ldidx))) (lsap s)\<rparr>"
  have s2_rob: "ROB s2 = ROB s" by (simp add: s2_def ROB_issuestore_resolve)
  have s2_spec: "speculative_state s2 = speculative_state s" by (simp add: s2_def spec_issuestore_resolve)
  have s2_lsap: "lsap s2 = lsap s" using s2_spec by (simp add: speculative_state_def)
  have s2_len: "length (LSQ s2) = length (LSQ s)"
    by (simp add: s2_def issuestore_resolve_def Let_def upd_lsq_def add_stat_def split: prod.split)
  have s2_ldrob: "lsq_rob (LSQ (upd_lsq ?li (mark_aliased hw) s2) ! ldbuf) = Some ldidx"
    using ldrob lsq_rob_issuestore_resolve [of hw idx va vb s ldbuf]
    by (simp add: s2_def upd_lsq_def nth_list_update_all mark_aliased_def)
  have t_rob: "ROB t = ROB s" by (simp add: t_def s2_rob)
  have t_ends: "ROB_head t = ROB_head s" "ROB_tail t = ROB_tail s"
    using s2_spec by (simp_all add: t_def speculative_state_def upd_lsq_def)
  have t_lsap: "lsap t = lsap_select (rip (uop (ROB s ! ldidx))) (lsap s)" by (simp add: t_def)
  have t_lsq: "LSQ t ! ?li = mark_aliased hw (LSQ s2 ! ?li)"
    using li by (simp add: t_def upd_lsq_def s2_len)
  have ali: "issuestore_aliased hw X idx ldbuf s2
               = (case annul_after_and_including hw X idx t of
                    None \<Rightarrow> None
                  | Some (recoveryrip, s3) \<Rightarrow>
                      Some (ISSUE_MISSPECULATED,
                            bump ''store_issue_ordering'' (reset_fetch_unit (rip (uop (ROB s3 ! idx))) s3)))"
    unfolding issuestore_aliased_def Let_def s2_rob
    by (simp add: t_def s2_lsap s2_ldrob s2_rob)
  have somidx: "somidx < ?n" using som idx by (rule ring_search_dec_less)
  obtain eomidx where eomidx: "ring_search (\<lambda>j. eom (uop (ROB s ! j))) ?n 1 ?n idx = Some eomidx"
    using ring_search_total_inc [of idx ?n k "\<lambda>j. eom (uop (ROB s ! j))"] idx eom by blast
  obtain walk where walk: "ring_fwd ?n ?n (ROB_head s) somidx = Some walk"
    using ring_fwd_total [OF head somidx] by blast
  define u where "u = fold (\<lambda>i t. snd (pseudocommit hw i t)) walk (restore_specrrt hw (fold annul_issueq idxs t))"
  define s3 where "s3 = fold (annul_rob hw X) idxs u"
  have ann: "annul_after_and_including hw X idx t = Some (rip (uop (ROB s ! somidx)), s3)"
    unfolding annul_after_and_including_def s3_def u_def
    using annul_including_state [of t hw idx somidx eomidx idxs walk X]
    by (simp add: t_rob t_ends som eomidx ne idxs walk)
  have u_len: "length (ROB u) = ?n" by (simp add: u_def t_rob len)
  have lt: "j < ?n" if "j \<in> set idxs" for j
    using ring_bwd_incl_total [OF add_index_modulo_dec_less [OF tail] somidx] that
    by (auto simp add: idxs)
  have freed: "\<not> entry_valid (ROB s3 ! j) \<and> current_state_list (ROB s3 ! j) = Some rob_free_list"
    if "j \<in> set idxs" for j
    unfolding s3_def using lt [OF that] that by (intro freed_fold_annul_rob) (simp_all add: u_len)
  have s3_uop: "uop (ROB s3 ! j) = uop (ROB s ! j)" for j
    by (simp add: s3_def u_def t_rob)
  have s3_lsap: "lsap s3 = lsap_select (rip (uop (ROB s ! ldidx))) (lsap s)"
    by (simp add: s3_def u_def t_lsap)
  define s' where "s' = bump ''store_issue_ordering'' (reset_fetch_unit (rip (uop (ROB s ! idx))) s3)"
  have s'_rob: "ROB s' = ROB s3" by (simp add: s'_def)
  obtain origaddr addr annul_hi where addr: "issuestore_addr hw (uop (ROB s ! idx)) va vb = (origaddr, addr, annul_hi)"
    by (cases "issuestore_addr hw (uop (ROB s ! idx)) va vb") auto
  have iss: "issuestore hw X idx va vb vc True s = Some (ISSUE_MISSPECULATED, s')"
    unfolding issuestore_def issuestore_continue_def Let_def addr prod.case noexc s2_def [symmetric]
    using scan ready ld
    by (simp add: s2_def [symmetric] ali ann s3_uop s'_def split: option.splits)
  have mark: "invalid (LSQ t ! ?li)" "data (LSQ t ! ?li) = EXCEPTION_LoadStoreAliasing hw"
    by (simp_all add: t_lsq mark_aliased_def)
  have fetch: "lsap s' = lsap_select (rip (uop (ROB s ! ldidx))) (lsap s)"
    "fetchrip s' = rip (uop (ROB s ! idx))" "fetchq s' = []"
    by (simp_all add: s'_def s3_lsap bump_def add_stat_def reset_fetch_unit_def)
  show ?thesis
    apply (rule exI [of _ t])
    apply (rule exI [of _ s3])
    apply (rule exI [of _ s'])
    using mark ann iss fetch freed mem
    by (simp add: s'_rob t_def s2_def s'_def)
qed

lemma ring_find_step:
  "0 < k \<Longrightarrow> ring_find P n inc k i stop =
     (if i = stop then Some None else if P i then Some (Some i)
      else ring_find P n inc (k - 1) (add_index_modulo i inc n) stop)"
  by (cases k) simp_all

lemma example_resolve:
  "issuestore_resolve example_hw 0 0x1000 0 example_core
     = add_stat ''store_size'' 3 1
         (add_stat ''store_type_internal'' 0 0
         (add_stat ''store_type_unaligned'' 0 0
         (add_stat ''store_type_aligned'' 0 1
           (upd_lsq 0 (\<lambda>l. l\<lparr>physaddr := 0x200, invalid := False, datavalid := False, addrvalid := True\<rparr>)
              example_core))))"
  by (simp add: issuestore_resolve_def issuestore_addr_def Let_def example_defs lowbits_def of_bool_w_def
        drop_bit_eq_div)

lemma example_resolve_LSQ:
  "LSQ (issuestore_resolve example_hw 0 0x1000 0 example_core)
     = [(example_lsq True True 0x200 0), example_lsq False True 0x200 1,
        (example_lsq False False 0 0)\<lparr>lsq_entry_valid := False, lsq_rob := None\<rparr>,
        (example_lsq False False 0 0)\<lparr>lsq_entry_valid := False, lsq_rob := None\<rparr>]"
  "LSQ_head (issuestore_resolve example_hw 0 0x1000 0 example_core) = 0"
  "LSQ_tail (issuestore_resolve example_hw 0 0x1000 0 example_core) = 2"
  unfolding example_resolve
  by (simp_all add: add_stat_def upd_lsq_def example_core_def example_lsq_def)

text \<open>The address of the high block.\<close>

lemma floor_w_8: "floor_w x 8 = push_bit 3 (drop_bit 3 x)"
proof -
  have "(7::W64) = mask 3" by (simp add: mask_eq_exp_minus_1)
  then have "floor_w x 8 = x AND NOT (mask 3)" by (simp add: floor_w_def)
  also have "\<dots> = push_bit 3 (drop_bit 3 x)"
    by (rule bit_eqI) (auto simp add: bit_simps)
  finally show ?thesis .
qed

lemma high_block_aligned:
  assumes "k \<le> 3"
  shows "lowbits (lowbits (floor_w x 8 + 8) vb) k = 0"
proof -
  have "floor_w x 8 + 8 = push_bit 3 (drop_bit 3 x + 1)"
    by (simp add: floor_w_8 push_bit_add)
  then have "lowbits (lowbits (floor_w x 8 + 8) vb) k = take_bit k (take_bit vb (push_bit 3 (drop_bit 3 x + 1)))"
    by (simp add: lowbits_def)
  also have "\<dots> = 0"
    using assms by (intro bit_eqI) (auto simp add: bit_simps)
  finally show ?thesis .
qed

lemma annul_extern_fastcheck:
  "annul_after_and_including hw (X\<lparr>asp_fastcheck_write := f\<rparr>) i t = annul_after_and_including hw X i t"
proof -
  have rob: "annul_rob hw (X\<lparr>asp_fastcheck_write := f\<rparr>) = annul_rob hw X"
    by (intro ext) (simp add: annul_rob_def Let_def split del: if_split cong: if_cong)
  show ?thesis unfolding annul_after_and_including_def annul_def rob ..
qed

lemma issuestore_continue_fastcheck:
  "issuestore_continue hw (X\<lparr>asp_fastcheck_write := f\<rparr>) idx li origaddr vc rcready s2
     = issuestore_continue hw X idx li origaddr vc rcready s2"
  unfolding issuestore_continue_def issuestore_aliased_def annul_extern_fastcheck ..

lemma LSQ_issuestore_merge:
  "\<exists>d m. LSQ (issuestore_merge idx sfra origaddr vc s)
           = (LSQ s)[lsq (ROB s ! idx) := (LSQ s ! lsq (ROB s ! idx))\<lparr>invalid := False, data := d, bytemask := m, datavalid := True\<rparr>]"
  by (simp add: issuestore_merge_def Let_def upd_lsq_def upd_rob_def bump_def add_stat_def split: prod.split) blast

lemma issuestore_continue_completed:
  assumes "issuestore_continue hw X idx li origaddr vc rcready s2 = Some (ISSUE_COMPLETED, s')"
  shows "\<exists>sfra. s' = issuestore_merge idx sfra origaddr vc s2"
proof -
  have n: "ISSUE_NEEDS_REPLAY \<noteq> ISSUE_COMPLETED" "ISSUE_MISSPECULATED \<noteq> ISSUE_COMPLETED"
    by (simp_all add: ISSUE_NEEDS_REPLAY_def ISSUE_COMPLETED_def ISSUE_MISSPECULATED_def)
  show ?thesis
    using assms n
    by (auto simp add: issuestore_continue_def issuestore_aliased_def Let_def
          split: option.splits if_splits prod.splits)
qed

lemma length_LSQ_issuestore_resolve [simp]:
  "length (LSQ (issuestore_resolve hw idx va vb s)) = length (LSQ s)"
  by (simp add: issuestore_resolve_def Let_def upd_lsq_def add_stat_def split: prod.split)

lemma example_split_resolve:
  "LSQ (issuestore_resolve example_hw 0 0x1000 0 example_split_store)
     = [(example_lsq True True 0x201 0), example_lsq False True 0x200 1,
        (example_lsq False False 0 0)\<lparr>lsq_entry_valid := False, lsq_rob := None\<rparr>,
        (example_lsq False False 0 0)\<lparr>lsq_entry_valid := False, lsq_rob := None\<rparr>]"
  "LSQ_head (issuestore_resolve example_hw 0 0x1000 0 example_split_store) = 0"
  "LSQ_tail (issuestore_resolve example_hw 0 0x1000 0 example_split_store) = 2"
  by (simp_all add: issuestore_resolve_def issuestore_addr_def Let_def example_split_store_def upd_rob_def
        upd_lsq_def add_stat_def example_defs lowbits_def floor_w_def drop_bit_eq_div)

subsection \<open>The scan of commit\<close>

lemma add_index_modulo_inc_mod: "i < n \<Longrightarrow> add_index_modulo i 1 n = Suc i mod n"
  by (simp add: add_index_modulo_inc)

lemma ring_find_first:
  assumes "i < n" and "m < k"
    and "\<forall>d<m. \<not> P ((i + d) mod n) \<and> (i + d) mod n \<noteq> stop"
    and "P ((i + m) mod n)" and "(i + m) mod n \<noteq> stop"
  shows "ring_find P n 1 k i stop = Some (Some ((i + m) mod n))"
  using assms
proof (induction m arbitrary: i k)
  case 0
  then obtain k' where "k = Suc k'" by (cases k) auto
  then show ?case using 0 by simp
next
  case (Suc m)
  obtain k' where k: "k = Suc k'" and mk: "m < k'" using Suc.prems(2) by (cases k) auto
  let ?i' = "Suc i mod n"
  have i': "?i' < n" using Suc.prems(1) by simp
  have sh: "(?i' + d) mod n = (i + Suc d) mod n" for d
    by (simp add: mod_add_left_eq)
  have "\<not> P ((i + 0) mod n) \<and> (i + 0) mod n \<noteq> stop" using Suc.prems(3) by blast
  then have here: "\<not> P i" "i \<noteq> stop" using Suc.prems(1) by simp_all
  have rest: "\<forall>d<m. \<not> P ((?i' + d) mod n) \<and> (?i' + d) mod n \<noteq> stop"
    unfolding sh using Suc.prems(3) by auto
  have p: "P ((?i' + m) mod n)" unfolding sh using Suc.prems(4) .
  have q: "(?i' + m) mod n \<noteq> stop" unfolding sh using Suc.prems(5) .
  have "ring_find P n 1 k' ?i' stop = Some (Some ((?i' + m) mod n))"
    using i' mk rest p q by (rule Suc.IH)
  then have "ring_find P n 1 k' ?i' stop = Some (Some ((i + Suc m) mod n))"
    unfolding sh .
  then show ?case using here Suc.prems(1) by (simp add: k add_index_modulo_inc_mod)
qed

lemma commit_scan_bytes [simp]:
  "commit_scan hw idx (s\<lparr>bytes_in_current_insn_to_commit := b\<rparr>) = commit_scan hw idx s"
  by (simp add: commit_scan_def has_exception_def split: option.split)

lemma commit_scan_first:
  assumes "idx < ROB_SIZE hw" and "m < ROB_SIZE hw"
    and "\<forall>d<m. ready_to_commit (ROB s ! ((idx + d) mod ROB_SIZE hw))
              \<and> \<not> has_exception hw s ((idx + d) mod ROB_SIZE hw)
              \<and> \<not> eom (uop (ROB s ! ((idx + d) mod ROB_SIZE hw)))
              \<and> (idx + d) mod ROB_SIZE hw \<noteq> ROB_tail s"
    and "(idx + m) mod ROB_SIZE hw \<noteq> ROB_tail s"
    and "\<not> ready_to_commit (ROB s ! ((idx + m) mod ROB_SIZE hw))
         \<or> has_exception hw s ((idx + m) mod ROB_SIZE hw)
         \<or> eom (uop (ROB s ! ((idx + m) mod ROB_SIZE hw)))"
  shows "commit_scan hw idx s =
           Some (if \<not> ready_to_commit (ROB s ! ((idx + m) mod ROB_SIZE hw)) then scan_not_ready
                 else if has_exception hw s ((idx + m) mod ROB_SIZE hw)
                 then scan_exception (pr_data (physregs s ! the (physreg (ROB s ! ((idx + m) mod ROB_SIZE hw)))))
                 else scan_all_ready)"
proof -
  let ?P = "\<lambda>j. \<not> ready_to_commit (ROB s ! j) \<or> has_exception hw s j \<or> eom (uop (ROB s ! j))"
  have "ring_find ?P (ROB_SIZE hw) 1 (ROB_SIZE hw) idx (ROB_tail s) = Some (Some ((idx + m) mod ROB_SIZE hw))"
    using assms by (intro ring_find_first) auto
  then show ?thesis by (simp add: commit_scan_def)
qed

lemma arch_commit_exception:
  "architectural_state (commit_exception hw idx e s) = architectural_state s"
  "ctx_exception (commit_exception hw idx e s) = e"
  by (simp_all add: commit_exception_def Let_def architectural_state_def add_stat_def bump_def)

lemma commit_first_stop:
  assumes "idx < ROB_SIZE hw" and "m < ROB_SIZE hw"
    and "\<forall>d<m. ready_to_commit (ROB s ! ((idx + d) mod ROB_SIZE hw))
              \<and> \<not> has_exception hw s ((idx + d) mod ROB_SIZE hw)
              \<and> \<not> eom (uop (ROB s ! ((idx + d) mod ROB_SIZE hw)))
              \<and> (idx + d) mod ROB_SIZE hw \<noteq> ROB_tail s"
    and "(idx + m) mod ROB_SIZE hw \<noteq> ROB_tail s"
  shows "(\<not> ready_to_commit (ROB s ! ((idx + m) mod ROB_SIZE hw))
            \<longrightarrow> (\<exists>s'. commit_rob hw X idx s = Some (COMMIT_RESULT_NONE, s')
                      \<and> architectural_state s' = architectural_state s))
         \<and> (ready_to_commit (ROB s ! ((idx + m) mod ROB_SIZE hw))
              \<and> has_exception hw s ((idx + m) mod ROB_SIZE hw)
            \<longrightarrow> (\<exists>s'. commit_rob hw X idx s = Some (COMMIT_RESULT_EXCEPTION, s')
                      \<and> architectural_state s' = architectural_state s
                      \<and> ctx_exception s'
                          = pr_data (physregs s ! the (physreg (ROB s ! ((idx + m) mod ROB_SIZE hw))))))
         \<and> (ready_to_commit (ROB s ! ((idx + m) mod ROB_SIZE hw))
              \<and> \<not> has_exception hw s ((idx + m) mod ROB_SIZE hw)
              \<and> eom (uop (ROB s ! ((idx + m) mod ROB_SIZE hw)))
            \<longrightarrow> (\<exists>rc s'. commit_rob hw X idx s = Some (rc, s')
                      \<and> (rc = COMMIT_RESULT_OK \<or> rc = COMMIT_RESULT_BARRIER)))"
proof -
  let ?j = "(idx + m) mod ROB_SIZE hw"
  define s0 where "s0 = (if som (uop (ROB s ! idx)) then s\<lparr>bytes_in_current_insn_to_commit := bytes (uop (ROB s ! idx))\<rparr> else s)"
  have s0: "commit_scan hw idx s0 = commit_scan hw idx s" "architectural_state s0 = architectural_state s"
    by (simp_all add: s0_def architectural_state_def)
  have c: "commit_rob hw X idx s =
             (case commit_scan hw idx s of
                None \<Rightarrow> None
              | Some scan_not_ready \<Rightarrow> Some (COMMIT_RESULT_NONE, bump ''commit_result_none'' s0)
              | Some (scan_exception e) \<Rightarrow> Some (COMMIT_RESULT_EXCEPTION, commit_exception hw idx e s0)
              | Some scan_all_ready \<Rightarrow> Some (commit_update hw X idx s0))"
    unfolding commit_rob_def Let_def s0_def [symmetric] s0(1) ..
  have sc: "commit_scan hw idx s =
           Some (if \<not> ready_to_commit (ROB s ! ?j) then scan_not_ready
                 else if has_exception hw s ?j
                 then scan_exception (pr_data (physregs s ! the (physreg (ROB s ! ?j))))
                 else scan_all_ready)"
    if "\<not> ready_to_commit (ROB s ! ?j) \<or> has_exception hw s ?j \<or> eom (uop (ROB s ! ?j))"
    using assms that by (rule commit_scan_first)
  have none: "architectural_state (bump ''commit_result_none'' s0) = architectural_state s"
    using s0(2) by (simp add: architectural_state_def bump_def add_stat_def)
  have upd: "fst (commit_update hw X idx s0) = COMMIT_RESULT_OK \<or> fst (commit_update hw X idx s0) = COMMIT_RESULT_BARRIER"
    by (simp add: commit_update_def Let_def)
  show ?thesis
  proof (intro conjI impI)
    assume "\<not> ready_to_commit (ROB s ! ?j)"
    then show "\<exists>s'. commit_rob hw X idx s = Some (COMMIT_RESULT_NONE, s') \<and> architectural_state s' = architectural_state s"
      using sc none by (simp add: c)
  next
    assume "ready_to_commit (ROB s ! ?j) \<and> has_exception hw s ?j"
    then show "\<exists>s'. commit_rob hw X idx s = Some (COMMIT_RESULT_EXCEPTION, s')
                 \<and> architectural_state s' = architectural_state s
                 \<and> ctx_exception s' = pr_data (physregs s ! the (physreg (ROB s ! ?j)))"
      using sc s0(2) by (simp add: c arch_commit_exception)
  next
    assume a: "ready_to_commit (ROB s ! ?j) \<and> \<not> has_exception hw s ?j \<and> eom (uop (ROB s ! ?j))"
    then have "commit_rob hw X idx s = Some (commit_update hw X idx s0)"
      using sc by (simp add: c)
    then have "commit_rob hw X idx s = Some (fst (commit_update hw X idx s0), snd (commit_update hw X idx s0))"
      by simp
    then show "\<exists>rc s'. commit_rob hw X idx s = Some (rc, s') \<and> (rc = COMMIT_RESULT_OK \<or> rc = COMMIT_RESULT_BARRIER)"
      using upd by blast
  qed
qed

lemma example_commit_ready_ROB:
  "ROB example_commit_ready
     = [example_rob rob_ready_to_commit_queue ((example_uop 0 0x1000)\<lparr>eom := False\<rparr>) 1 0,
        example_rob rob_ready_to_commit_queue ((example_uop 0 0x1000)\<lparr>som := False\<rparr>) 2 0,
        example_rob (rob_ready_to_issue_list 0) ((example_uop 3 0x1008)\<lparr>riptaken := 0x2000\<rparr>) 3 0,
        (example_rob rob_free_list (example_uop 0 0) 7 0)\<lparr>entry_valid := False, physreg := None\<rparr>]"
  "ROB_tail example_commit_ready = 3"
  "physregs example_commit_ready
     = (physregs example_core)[2 := (example_physreg physreg_used_list 1 0)\<lparr>flags := 8, pr_data := 1\<rparr>]"
  by (simp_all add: example_commit_ready_def example_commit_waiting_def ROB_rob_changestate
        rob_changestate_def upd_rob_def Let_def example_rob_def example_core_def)

text \<open>
  When the scan reaches the tail of the ROB before it meets an entry that is not ready,
  has an exception or ends the macro-op, \<open>all_ready_to_commit\<close> is still true and the uop
  commits, the EOM uop of its macro-op not being in the ROB yet.
\<close>

lemma ring_find_stop:
  assumes "i < n" and "m \<le> k"
    and "\<forall>d<m. \<not> P ((i + d) mod n) \<and> (i + d) mod n \<noteq> stop"
    and "(i + m) mod n = stop"
  shows "ring_find P n 1 k i stop = Some None"
  using assms
proof (induction m arbitrary: i k)
  case 0
  then have "i = stop" by simp
  then show ?case by (cases k) simp_all
next
  case (Suc m)
  obtain k' where k: "k = Suc k'" and mk: "m \<le> k'" using Suc.prems(2) by (cases k) auto
  let ?i' = "Suc i mod n"
  have i': "?i' < n" using Suc.prems(1) by simp
  have sh: "(?i' + d) mod n = (i + Suc d) mod n" for d
    by (simp add: mod_add_left_eq)
  have "\<not> P ((i + 0) mod n) \<and> (i + 0) mod n \<noteq> stop" using Suc.prems(3) by blast
  then have here: "\<not> P i" "i \<noteq> stop" using Suc.prems(1) by simp_all
  have rest: "\<forall>d<m. \<not> P ((?i' + d) mod n) \<and> (?i' + d) mod n \<noteq> stop"
    unfolding sh using Suc.prems(3) by auto
  have q: "(?i' + m) mod n = stop" unfolding sh using Suc.prems(4) .
  have "ring_find P n 1 k' ?i' stop = Some None"
    using i' mk rest q by (rule Suc.IH)
  then show ?case using here Suc.prems(1) by (simp add: k add_index_modulo_inc_mod)
qed

lemma commit_reaches_tail:
  assumes "idx < ROB_SIZE hw" and "m \<le> ROB_SIZE hw"
    and "\<forall>d<m. ready_to_commit (ROB s ! ((idx + d) mod ROB_SIZE hw))
              \<and> \<not> has_exception hw s ((idx + d) mod ROB_SIZE hw)
              \<and> \<not> eom (uop (ROB s ! ((idx + d) mod ROB_SIZE hw)))
              \<and> (idx + d) mod ROB_SIZE hw \<noteq> ROB_tail s"
    and "(idx + m) mod ROB_SIZE hw = ROB_tail s"
  shows "\<exists>rc s'. commit_rob hw X idx s = Some (rc, s')
                  \<and> (rc = COMMIT_RESULT_OK \<or> rc = COMMIT_RESULT_BARRIER)"
proof -
  let ?P = "\<lambda>j. \<not> ready_to_commit (ROB s ! j) \<or> has_exception hw s j \<or> eom (uop (ROB s ! j))"
  define s0 where "s0 = (if som (uop (ROB s ! idx)) then s\<lparr>bytes_in_current_insn_to_commit := bytes (uop (ROB s ! idx))\<rparr> else s)"
  have s0: "commit_scan hw idx s0 = commit_scan hw idx s" by (simp add: s0_def)
  have "ring_find ?P (ROB_SIZE hw) 1 (ROB_SIZE hw) idx (ROB_tail s) = Some None"
    using assms by (intro ring_find_stop [where m = m]) auto
  then have "commit_scan hw idx s = Some scan_all_ready" by (simp add: commit_scan_def)
  then have "commit_rob hw X idx s = Some (commit_update hw X idx s0)"
    unfolding commit_rob_def Let_def s0_def [symmetric] s0 by simp
  then have "commit_rob hw X idx s = Some (fst (commit_update hw X idx s0), snd (commit_update hw X idx s0))"
    by simp
  moreover have "fst (commit_update hw X idx s0) = COMMIT_RESULT_OK \<or> fst (commit_update hw X idx s0) = COMMIT_RESULT_BARRIER"
    by (simp add: commit_update_def Let_def)
  ultimately show ?thesis by blast
qed

subsection \<open>The forwarding cycle counter\<close>

lemma w16s_id: "- 32768 \<le> x \<Longrightarrow> x \<le> 32767 \<Longrightarrow> w16s x = x"
  by (simp add: w16s_def)

lemma ROB_forward [simp]: "ROB (forward hw i s) = ROB s"
proof -
  have "ROB (fold (\<lambda>c t. issueq_operation_on_cluster (int c) (iq_broadcast i) t) cs s) = ROB s" for cs
    by (induction cs arbitrary: s) simp_all
  then show ?thesis by (simp add: forward_def)
qed

lemma rob_states_forward [simp]: "rob_states (forward hw i s) = rob_states s"
proof -
  have "rob_states (fold (\<lambda>c t. issueq_operation_on_cluster (int c) (iq_broadcast i) t) cs s) = rob_states s" for cs
    by (induction cs arbitrary: s) (simp_all add: issueq_operation_on_cluster_def)
  then show ?thesis by (simp add: forward_def)
qed

text \<open>What \<open>transfer\<close> does to one ROB entry.\<close>

lemma ROB_transfer_rob:
  "ROB (transfer_rob hw i s)
     = (ROB s)[i := (if w16s (forward_cycle (ROB s ! i) + 1) > MAX_FORWARDING_LATENCY hw
                     then (ROB s ! i)\<lparr>forward_cycle := w16s (MAX_FORWARDING_LATENCY hw),
                                       current_state_list := Some (rob_ready_to_writeback_list (cluster (ROB s ! i)))\<rparr>
                     else (ROB s ! i)\<lparr>forward_cycle := w16s (forward_cycle (ROB s ! i) + 1)\<rparr>)]"
proof (cases "i < length (ROB s)")
  case True
  then show ?thesis
    by (simp add: transfer_rob_def Let_def ROB_upd_rob ROB_rob_changestate)
next
  case False
  then show ?thesis
    by (simp add: transfer_rob_def Let_def ROB_upd_rob ROB_rob_changestate not_less list_update_beyond)
qed

lemma length_ROB_transfer_rob [simp]: "length (ROB (transfer_rob hw i s)) = length (ROB s)"
  by (simp add: ROB_transfer_rob)

lemma ROB_fold_transfer_rob_other:
  "i \<notin> set is \<Longrightarrow> ROB (fold (transfer_rob hw) is s) ! i = ROB s ! i"
  by (induction "is" arbitrary: s) (auto simp add: ROB_transfer_rob)

lemma length_ROB_fold_transfer_rob [simp]: "length (ROB (fold (transfer_rob hw) is s)) = length (ROB s)"
  by (induction "is" arbitrary: s) simp_all

lemma ROB_fold_transfer_rob:
  assumes "distinct is" and "i \<in> set is" and "i < length (ROB s)"
  shows "ROB (fold (transfer_rob hw) is s) ! i = ROB (transfer_rob hw i s) ! i"
  using assms
proof (induction "is" arbitrary: s)
  case Nil
  then show ?case by simp
next
  case (Cons j js)
  show ?case
  proof (cases "j = i")
    case True
    then have "i \<notin> set js" using Cons.prems(1) by simp
    then show ?thesis using True by (simp add: ROB_fold_transfer_rob_other)
  next
    case False
    then have "i \<in> set js" "distinct js" using Cons.prems by auto
    then have "ROB (fold (transfer_rob hw) js (transfer_rob hw j s)) ! i
                 = ROB (transfer_rob hw i (transfer_rob hw j s)) ! i"
      using Cons.prems(3) by (intro Cons.IH) simp_all
    also have "\<dots> = ROB (transfer_rob hw i s) ! i"
      using False Cons.prems(3) by (simp add: ROB_transfer_rob)
    finally show ?thesis by simp
  qed
qed

lemma ROB_complete_rob:
  "ROB (complete_rob cl i s)
     = (ROB s)[i := (if w16s (cycles_left (ROB s ! i) - 1) \<le> 0
                     then (ROB s ! i)\<lparr>cycles_left := w16s (cycles_left (ROB s ! i) - 1),
                                       current_state_list := Some (rob_completed_list cl),
                                       forward_cycle := 0, fu := 0\<rparr>
                     else (ROB s ! i)\<lparr>cycles_left := w16s (cycles_left (ROB s ! i) - 1)\<rparr>)]"
proof (cases "i < length (ROB s)")
  case True
  then show ?thesis
    by (simp add: complete_rob_def Let_def ROB_upd_rob ROB_rob_changestate)
next
  case False
  then show ?thesis
    by (simp add: complete_rob_def Let_def ROB_upd_rob ROB_rob_changestate not_less list_update_beyond)
qed

lemma ROB_loadwakeup:
  "ROB (loadwakeup hw idx s)
     = (ROB s)[idx := (ROB s ! idx)\<lparr>current_state_list := Some (rob_completed_list (cluster (ROB s ! idx))),
                                     cycles_left := 0, lfrqslot := - 1, forward_cycle := 0, fu := 0\<rparr>]"
proof (cases "idx < length (ROB s)")
  case True
  then show ?thesis
    by (simp add: loadwakeup_def Let_def ROB_upd_rob ROB_rob_changestate)
next
  case False
  then show ?thesis
    by (simp add: loadwakeup_def Let_def ROB_upd_rob ROB_rob_changestate not_less list_update_beyond)
qed

lemma forward_cycle_complete_rob:
  "forward_cycle (ROB (complete_rob cl i s) ! j) = forward_cycle (ROB s ! j)
   \<or> forward_cycle (ROB (complete_rob cl i s) ! j) = 0"
  unfolding ROB_complete_rob by (simp add: nth_list_update_all)

lemma length_ROB_complete_rob [simp]: "length (ROB (complete_rob cl i s)) = length (ROB s)"
  unfolding ROB_complete_rob by simp

lemma forward_cycle_loadwakeup:
  "forward_cycle (ROB (loadwakeup hw idx s) ! j) = forward_cycle (ROB s ! j)
   \<or> forward_cycle (ROB (loadwakeup hw idx s) ! j) = 0"
  unfolding ROB_loadwakeup by (simp add: nth_list_update_all)

lemma length_ROB_loadwakeup [simp]: "length (ROB (loadwakeup hw idx s)) = length (ROB s)"
  unfolding ROB_loadwakeup by simp

text \<open>A step that leaves each counter as it is or sets it to 0 keeps the counters in range.\<close>

lemma range_step:
  assumes "length (ROB s') = length (ROB s)"
    and "\<And>j. j < length (ROB s) \<Longrightarrow>
           forward_cycle (ROB s' ! j) = forward_cycle (ROB s ! j) \<or> forward_cycle (ROB s' ! j) = 0"
    and "\<forall>r \<in> set (ROB s). 0 \<le> forward_cycle r \<and> forward_cycle r \<le> M"
    and "0 \<le> M"
  shows "\<forall>r \<in> set (ROB s'). 0 \<le> forward_cycle r \<and> forward_cycle r \<le> M"
proof -
  have "0 \<le> forward_cycle (ROB s' ! j) \<and> forward_cycle (ROB s' ! j) \<le> M" if "j < length (ROB s')" for j
  proof -
    have j: "j < length (ROB s)" using that assms(1) by simp
    then have "0 \<le> forward_cycle (ROB s ! j) \<and> forward_cycle (ROB s ! j) \<le> M"
      using assms(3) by simp
    then show ?thesis using assms(2) [OF j] assms(4) by auto
  qed
  then show ?thesis by (auto simp add: all_set_conv_all_nth)
qed

lemma range_transfer_rob:
  assumes "0 \<le> MAX_FORWARDING_LATENCY hw" and "MAX_FORWARDING_LATENCY hw < 32767"
    and "\<forall>r \<in> set (ROB s). 0 \<le> forward_cycle r \<and> forward_cycle r \<le> MAX_FORWARDING_LATENCY hw"
  shows "\<forall>r \<in> set (ROB (transfer_rob hw i s)).
           0 \<le> forward_cycle r \<and> forward_cycle r \<le> MAX_FORWARDING_LATENCY hw"
proof -
  have "0 \<le> forward_cycle (ROB (transfer_rob hw i s) ! j)
        \<and> forward_cycle (ROB (transfer_rob hw i s) ! j) \<le> MAX_FORWARDING_LATENCY hw"
    if j: "j < length (ROB s)" for j
  proof -
    have old: "0 \<le> forward_cycle (ROB s ! j)" "forward_cycle (ROB s ! j) \<le> MAX_FORWARDING_LATENCY hw"
      using assms(3) j by simp_all
    show ?thesis
    proof (cases "i = j")
      case True
      have w: "w16s (forward_cycle (ROB s ! j) + 1) = forward_cycle (ROB s ! j) + 1"
        "w16s (MAX_FORWARDING_LATENCY hw) = MAX_FORWARDING_LATENCY hw"
        using old assms(1,2) by (simp_all add: w16s_id)
      show ?thesis using old assms(1) j unfolding ROB_transfer_rob True w by simp
    next
      case False
      then show ?thesis using old by (simp add: ROB_transfer_rob)
    qed
  qed
  then show ?thesis by (simp add: all_set_conv_all_nth)
qed

lemma range_transfer:
  assumes "0 \<le> MAX_FORWARDING_LATENCY hw" and "MAX_FORWARDING_LATENCY hw < 32767"
    and "\<forall>r \<in> set (ROB s). 0 \<le> forward_cycle r \<and> forward_cycle r \<le> MAX_FORWARDING_LATENCY hw"
  shows "\<forall>r \<in> set (ROB (transfer hw cl s)).
           0 \<le> forward_cycle r \<and> forward_cycle r \<le> MAX_FORWARDING_LATENCY hw"
proof -
  have "\<forall>r \<in> set (ROB (fold (transfer_rob hw) is s)).
          0 \<le> forward_cycle r \<and> forward_cycle r \<le> MAX_FORWARDING_LATENCY hw" for "is"
    using assms(3)
  proof (induction "is" arbitrary: s)
    case Nil
    then show ?case by simp
  next
    case (Cons i "is")
    have "\<forall>r \<in> set (ROB (transfer_rob hw i s)).
            0 \<le> forward_cycle r \<and> forward_cycle r \<le> MAX_FORWARDING_LATENCY hw"
      using assms(1,2) Cons.prems by (rule range_transfer_rob)
    then have "\<forall>r \<in> set (ROB (fold (transfer_rob hw) is (transfer_rob hw i s))).
                 0 \<le> forward_cycle r \<and> forward_cycle r \<le> MAX_FORWARDING_LATENCY hw"
      by (rule Cons.IH)
    then show ?case by simp
  qed
  then show ?thesis by (simp add: transfer_def)
qed

lemma range_complete:
  assumes "0 \<le> M"
    and "\<forall>r \<in> set (ROB s). 0 \<le> forward_cycle r \<and> forward_cycle r \<le> M"
  shows "\<forall>r \<in> set (ROB (complete cl s)). 0 \<le> forward_cycle r \<and> forward_cycle r \<le> M"
proof -
  have "\<forall>r \<in> set (ROB (fold (complete_rob cl) is s)). 0 \<le> forward_cycle r \<and> forward_cycle r \<le> M" for "is"
    using assms(2)
  proof (induction "is" arbitrary: s)
    case Nil
    then show ?case by simp
  next
    case (Cons i "is")
    have "\<forall>r \<in> set (ROB (complete_rob cl i s)). 0 \<le> forward_cycle r \<and> forward_cycle r \<le> M"
    proof (rule range_step [of _ s])
      show "length (ROB (complete_rob cl i s)) = length (ROB s)" by simp
      show "forward_cycle (ROB (complete_rob cl i s) ! j) = forward_cycle (ROB s ! j)
            \<or> forward_cycle (ROB (complete_rob cl i s) ! j) = 0" for j
        by (rule forward_cycle_complete_rob)
      show "\<forall>r \<in> set (ROB s). 0 \<le> forward_cycle r \<and> forward_cycle r \<le> M" by (rule Cons.prems)
      show "0 \<le> M" by (rule assms(1))
    qed
    then have "\<forall>r \<in> set (ROB (fold (complete_rob cl) is (complete_rob cl i s))).
                 0 \<le> forward_cycle r \<and> forward_cycle r \<le> M"
      by (rule Cons.IH)
    then show ?case by simp
  qed
  then show ?thesis by (simp add: complete_def)
qed

lemma range_loadwakeup:
  assumes "0 \<le> M"
    and "\<forall>r \<in> set (ROB s). 0 \<le> forward_cycle r \<and> forward_cycle r \<le> M"
  shows "\<forall>r \<in> set (ROB (loadwakeup hw idx s)). 0 \<le> forward_cycle r \<and> forward_cycle r \<le> M"
proof (rule range_step [of _ s])
  show "length (ROB (loadwakeup hw idx s)) = length (ROB s)" by simp
  show "forward_cycle (ROB (loadwakeup hw idx s) ! j) = forward_cycle (ROB s ! j)
        \<or> forward_cycle (ROB (loadwakeup hw idx s) ! j) = 0" for j
    by (rule forward_cycle_loadwakeup)
  show "\<forall>r \<in> set (ROB s). 0 \<le> forward_cycle r \<and> forward_cycle r \<le> M" by (rule assms(2))
  show "0 \<le> M" by (rule assms(1))
qed

lemma reachable_range:
  assumes "reachable hw s" and "0 \<le> MAX_FORWARDING_LATENCY hw" and "MAX_FORWARDING_LATENCY hw < 32767"
  shows "\<forall>r \<in> set (ROB s). 0 \<le> forward_cycle r \<and> forward_cycle r \<le> MAX_FORWARDING_LATENCY hw"
  using assms(1)
proof (induction rule: reachable.induct)
  case (zeroed s)
  then show ?case using assms(2) by simp
next
  case (transfer_step s cl)
  show ?case using assms(2,3) transfer_step.IH by (rule range_transfer)
next
  case (complete_step s cl)
  show ?case using assms(2) complete_step.IH by (rule range_complete)
next
  case (loadwakeup_step s idx)
  show ?case using assms(2) loadwakeup_step.IH by (rule range_loadwakeup)
next
  case (other_step s s')
  have len: "length (ROB s') = length (ROB s)" using other_step.hyps(2) by (rule map_eq_imp_length_eq)
  have eq: "forward_cycle (ROB s' ! j) = forward_cycle (ROB s ! j)" if "j < length (ROB s)" for j
  proof -
    have "map forward_cycle (ROB s') ! j = map forward_cycle (ROB s) ! j"
      using other_step.hyps(2) by simp
    then show ?thesis using that len by simp
  qed
  show ?case
  proof (rule range_step [of _ s])
    show "length (ROB s') = length (ROB s)" by (rule len)
    show "forward_cycle (ROB s' ! j) = forward_cycle (ROB s ! j) \<or> forward_cycle (ROB s' ! j) = 0"
      if "j < length (ROB s)" for j
      using eq [OF that] by simp
    show "\<forall>r \<in> set (ROB s). 0 \<le> forward_cycle r \<and> forward_cycle r \<le> MAX_FORWARDING_LATENCY hw"
      by (rule other_step.IH)
    show "0 \<le> MAX_FORWARDING_LATENCY hw" by (rule assms(2))
  qed
qed

lemma example_completed_facts:
  "rob_states example_completed (rob_completed_list 0) = [1]"
  "length (ROB example_completed) = 4"
  "forward_cycle (ROB example_completed ! Suc 0) = 0"
  "cluster (ROB example_completed ! Suc 0) = 0"
  "current_state_list (ROB example_completed ! Suc 0) = Some (rob_completed_list 0)"
  by (simp_all add: example_completed_def complete_def complete_rob_def Let_def upd_rob_def
        rob_changestate_def physreg_changestate_def upd_physreg_def w16s_def example_core_def example_rob_def)

lemma transfer_one:
  assumes "rob_states s (rob_completed_list cl) = [i]" and "i < length (ROB s)"
    and "w16s (forward_cycle (ROB s ! i) + 1) \<le> MAX_FORWARDING_LATENCY hw"
  shows "rob_states (transfer hw cl s) = rob_states s"
    and "ROB (transfer hw cl s) = (ROB s)[i := (ROB s ! i)\<lparr>forward_cycle := w16s (forward_cycle (ROB s ! i) + 1)\<rparr>]"
  using assms by (simp_all add: transfer_def transfer_rob_def Let_def ROB_upd_rob upd_rob_def)

lemma example_forwarded_facts:
  "rob_states example_forwarded (rob_completed_list 0) = [1]"
  "length (ROB example_forwarded) = 4"
  "forward_cycle (ROB example_forwarded ! Suc 0) = 2"
  "cluster (ROB example_forwarded ! Suc 0) = 0"
proof -
  let ?t = "transfer example_hw 0 example_completed"
  have m: "MAX_FORWARDING_LATENCY example_hw = 2" by (simp add: example_hw_def)
  have a: "rob_states ?t = rob_states example_completed"
    "ROB ?t = (ROB example_completed)[1 := (ROB example_completed ! Suc 0)\<lparr>forward_cycle := 1\<rparr>]"
    using transfer_one [of example_completed 0 1 example_hw]
    by (simp_all add: example_completed_facts m w16s_def)
  have b: "rob_states (transfer example_hw 0 ?t) = rob_states ?t"
    "ROB (transfer example_hw 0 ?t) = (ROB ?t)[1 := (ROB ?t ! 1)\<lparr>forward_cycle := 2\<rparr>]"
    using transfer_one [of ?t 0 1 example_hw]
    by (simp_all add: a example_completed_facts m w16s_def)
  show "rob_states example_forwarded (rob_completed_list 0) = [1]"
    "length (ROB example_forwarded) = 4"
    "forward_cycle (ROB example_forwarded ! Suc 0) = 2"
    "cluster (ROB example_forwarded ! Suc 0) = 0"
    by (simp_all add: example_forwarded_def a b example_completed_facts)
qed

lemma transfer_entry:
  assumes "0 \<le> forward_cycle (ROB s ! i)" and "forward_cycle (ROB s ! i) \<le> MAX_FORWARDING_LATENCY hw"
    and "MAX_FORWARDING_LATENCY hw < 32767"
    and "i \<in> set (rob_states s (rob_completed_list cl))"
    and "distinct (rob_states s (rob_completed_list cl))" and "i < length (ROB s)"
  shows "forward_cycle (ROB (transfer hw cl s) ! i)
           = min (forward_cycle (ROB s ! i) + 1) (MAX_FORWARDING_LATENCY hw)"
    and "current_state_list (ROB (transfer hw cl s) ! i)
           = (if forward_cycle (ROB s ! i) + 1 > MAX_FORWARDING_LATENCY hw
              then Some (rob_ready_to_writeback_list (cluster (ROB s ! i)))
              else current_state_list (ROB s ! i))"
proof -
  have w: "w16s (forward_cycle (ROB s ! i) + 1) = forward_cycle (ROB s ! i) + 1"
    "w16s (MAX_FORWARDING_LATENCY hw) = MAX_FORWARDING_LATENCY hw"
    using assms(1,2,3) by (simp_all add: w16s_id)
  have "ROB (transfer hw cl s) ! i = ROB (transfer_rob hw i s) ! i"
    unfolding transfer_def using assms(5,4,6) by (rule ROB_fold_transfer_rob)
  also have "\<dots> = (if forward_cycle (ROB s ! i) + 1 > MAX_FORWARDING_LATENCY hw
                     then (ROB s ! i)\<lparr>forward_cycle := MAX_FORWARDING_LATENCY hw,
                                       current_state_list := Some (rob_ready_to_writeback_list (cluster (ROB s ! i)))\<rparr>
                     else (ROB s ! i)\<lparr>forward_cycle := forward_cycle (ROB s ! i) + 1\<rparr>)"
    unfolding ROB_transfer_rob w using assms(6) by simp
  finally have e: "ROB (transfer hw cl s) ! i
      = (if forward_cycle (ROB s ! i) + 1 > MAX_FORWARDING_LATENCY hw
         then (ROB s ! i)\<lparr>forward_cycle := MAX_FORWARDING_LATENCY hw,
                           current_state_list := Some (rob_ready_to_writeback_list (cluster (ROB s ! i)))\<rparr>
         else (ROB s ! i)\<lparr>forward_cycle := forward_cycle (ROB s ! i) + 1\<rparr>)" .
  show "forward_cycle (ROB (transfer hw cl s) ! i)
           = min (forward_cycle (ROB s ! i) + 1) (MAX_FORWARDING_LATENCY hw)"
    unfolding e by simp
  show "current_state_list (ROB (transfer hw cl s) ! i)
           = (if forward_cycle (ROB s ! i) + 1 > MAX_FORWARDING_LATENCY hw
              then Some (rob_ready_to_writeback_list (cluster (ROB s ! i)))
              else current_state_list (ROB s ! i))"
    unfolding e by simp
qed

subsection \<open>Rename and the in-flight counters\<close>

lemma inflight_add_stat [simp]:
  "loads_in_flight (add_stat n b k s) = loads_in_flight s" "stores_in_flight (add_stat n b k s) = stores_in_flight s"
  by (simp_all add: add_stat_def)

lemma inflight_bump [simp]:
  "loads_in_flight (bump n s) = loads_in_flight s" "stores_in_flight (bump n s) = stores_in_flight s"
  by (simp_all add: bump_def)

lemma inflight_upd_rob [simp]:
  "loads_in_flight (upd_rob i f s) = loads_in_flight s" "stores_in_flight (upd_rob i f s) = stores_in_flight s"
  by (simp_all add: upd_rob_def)

lemma inflight_upd_lsq [simp]:
  "loads_in_flight (upd_lsq i f s) = loads_in_flight s" "stores_in_flight (upd_lsq i f s) = stores_in_flight s"
  by (simp_all add: upd_lsq_def)

lemma inflight_upd_physreg [simp]:
  "loads_in_flight (upd_physreg i f s) = loads_in_flight s"
  "stores_in_flight (upd_physreg i f s) = stores_in_flight s"
  by (simp_all add: upd_physreg_def)

lemma inflight_rob_changestate [simp]:
  "loads_in_flight (rob_changestate i q s) = loads_in_flight s"
  "stores_in_flight (rob_changestate i q s) = stores_in_flight s"
  by (simp_all add: rob_changestate_def Let_def)

lemma inflight_physreg_changestate [simp]:
  "loads_in_flight (physreg_changestate i q s) = loads_in_flight s"
  "stores_in_flight (physreg_changestate i q s) = stores_in_flight s"
  by (simp_all add: physreg_changestate_def Let_def)

lemma inflight_addref [simp]:
  "loads_in_flight (addref hw i s) = loads_in_flight s" "stores_in_flight (addref hw i s) = stores_in_flight s"
  by (simp_all add: addref_def)

lemma inflight_unref [simp]:
  "loads_in_flight (unref hw i s) = loads_in_flight s" "stores_in_flight (unref hw i s) = stores_in_flight s"
  by (simp_all add: unref_def)

lemma inflight_specrrt_assign [simp]:
  "loads_in_flight (specrrt_assign hw a p s) = loads_in_flight s"
  "stores_in_flight (specrrt_assign hw a p s) = stores_in_flight s"
  by (simp_all add: specrrt_assign_def Let_def)

lemma inflight_ROB_alloc [simp]:
  "loads_in_flight (ROB_alloc hw s) = loads_in_flight s" "stores_in_flight (ROB_alloc hw s) = stores_in_flight s"
  by (simp_all add: ROB_alloc_def Let_def)

lemma inflight_LSQ_alloc [simp]:
  "loads_in_flight (LSQ_alloc hw s) = loads_in_flight s" "stores_in_flight (LSQ_alloc hw s) = stores_in_flight s"
  by (simp_all add: LSQ_alloc_def Let_def)

lemma inflight_physregs_alloc [simp]:
  "loads_in_flight (physregs_alloc hw s) = loads_in_flight s"
  "stores_in_flight (physregs_alloc hw s) = stores_in_flight s"
  by (simp_all add: physregs_alloc_def Let_def)

lemma inflight_rename_alloc [simp]:
  "loads_in_flight (rename_alloc hw u s) = loads_in_flight s"
  "stores_in_flight (rename_alloc hw u s) = stores_in_flight s"
  by (simp_all add: rename_alloc_def Let_def)

lemma inflight_rename_operands [simp]:
  "loads_in_flight (rename_operands hw u i s) = loads_in_flight s"
  "stores_in_flight (rename_operands hw u i s) = stores_in_flight s"
proof -
  have f: "loads_in_flight (fold (\<lambda>i. addref hw (g i)) js t) = loads_in_flight t
        \<and> stores_in_flight (fold (\<lambda>i. addref hw (g i)) js t) = stores_in_flight t"
    for g :: "nat \<Rightarrow> nat" and js and t :: "'a core"
    by (induction js arbitrary: t) simp_all
  show "loads_in_flight (rename_operands hw u i s) = loads_in_flight s"
    "stores_in_flight (rename_operands hw u i s) = stores_in_flight s"
    by (simp_all add: rename_operands_def Let_def f)
qed

lemma inflight_rename_dest [simp]:
  "loads_in_flight (rename_dest hw u p s) = loads_in_flight s"
  "stores_in_flight (rename_dest hw u p s) = stores_in_flight s"
  by (simp_all add: rename_dest_def Let_def)

lemma inflight_rename_uop [simp]:
  "loads_in_flight (rename_uop hw X s) = loads_in_flight s"
  "stores_in_flight (rename_uop hw X s) = stores_in_flight s"
  by (simp_all add: rename_uop_def Let_def)

lemma inflight_rename_loop:
  "loads_in_flight (rename_loop hw X k n s) = loads_in_flight s
   \<and> stores_in_flight (rename_loop hw X k n s) = stores_in_flight s"
  by (induction k arbitrary: n s) (simp_all split: rename_status.split)

lemma rename_check_not_full:
  assumes "loads_in_flight s \<le> 0" and "stores_in_flight s \<le> 0" and "0 < LDQ_SIZE hw"
  shows "rename_check hw s \<noteq> rename_ldq_full \<and> rename_check hw s \<noteq> rename_stq_full"
  using assms by (simp add: rename_check_def Let_def)

text \<open>What \<open>rename\<close> does to the queues and to the free list.\<close>

lemma view_add_stat [simp]: "rename_view (add_stat n b k s) = rename_view s"
  by (simp add: rename_view_def add_stat_def)

lemma view_bump [simp]: "rename_view (bump n s) = rename_view s"
  by (simp add: bump_def)

lemma view_upd_rob [simp]: "rename_view (upd_rob i f s) = rename_view s"
  by (simp add: rename_view_def upd_rob_def)

lemma view_upd_physreg [simp]: "rename_view (upd_physreg i f s) = rename_view s"
  by (simp add: rename_view_def upd_physreg_def)

lemma view_rob_changestate [simp]: "rename_view (rob_changestate i q s) = rename_view s"
  by (simp add: rename_view_def rob_changestate_def upd_rob_def Let_def)

lemma view_addref [simp]: "rename_view (addref hw i s) = rename_view s"
  by (simp add: addref_def)

lemma view_unref [simp]: "rename_view (unref hw i s) = rename_view s"
  by (simp add: unref_def)

lemma view_specrrt_assign [simp]: "rename_view (specrrt_assign hw a p s) = rename_view s"
proof -
  have "rename_view (t\<lparr>specrrt := x\<rparr>) = rename_view t" for x and t :: "'a core"
    by (simp add: rename_view_def)
  then show ?thesis by (simp add: specrrt_assign_def Let_def)
qed

lemma view_rename_dest [simp]: "rename_view (rename_dest hw u p s) = rename_view s"
  by (simp add: rename_dest_def Let_def)

lemma view_rename_operands [simp]: "rename_view (rename_operands hw u i s) = rename_view s"
proof -
  have f: "rename_view (fold (\<lambda>i. addref hw (g i)) js t) = rename_view t"
    for g :: "nat \<Rightarrow> nat" and js and t :: "'a core"
    by (induction js arbitrary: t) simp_all
  show ?thesis by (simp add: rename_operands_def Let_def f)
qed

lemma length_physregs_physreg_changestate [simp]:
  "length (physregs (physreg_changestate i q s)) = length (physregs s)"
  by (simp add: physreg_changestate_def upd_physreg_def Let_def)

lemma free_list_physregs_alloc:
  assumes "hd (physreg_states s physreg_free_list) < length (physregs s)"
  shows "physreg_states (physregs_alloc hw s) physreg_free_list = tl (physreg_states s physreg_free_list)"
  using assms
  by (simp add: physregs_alloc_def Let_def physreg_changestate_def upd_physreg_def)

lemma view_physregs_alloc:
  assumes "hd (physreg_states s physreg_free_list) < length (physregs s)"
  shows "rename_view (physregs_alloc hw s)
           = (fetchq s, ROB_count s, LSQ s, LSQ_count s, LSQ_tail s, tl (physreg_states s physreg_free_list),
              loads_in_flight s, stores_in_flight s)"
proof -
  have "physreg_states (physregs_alloc hw s) physreg_free_list = tl (physreg_states s physreg_free_list)"
    using assms by (rule free_list_physregs_alloc)
  moreover have "fetchq (physregs_alloc hw s) = fetchq s" "ROB_count (physregs_alloc hw s) = ROB_count s"
    "LSQ (physregs_alloc hw s) = LSQ s" "LSQ_count (physregs_alloc hw s) = LSQ_count s"
    "LSQ_tail (physregs_alloc hw s) = LSQ_tail s"
    by (simp_all add: physregs_alloc_def Let_def physreg_changestate_def upd_physreg_def)
  ultimately show ?thesis by (simp add: rename_view_def)
qed

lemma view_ROB_alloc:
  "rename_view (ROB_alloc hw s)
     = (fetchq s, ROB_count s + 1, LSQ s, LSQ_count s, LSQ_tail s, physreg_states s physreg_free_list,
        loads_in_flight s, stores_in_flight s)"
  by (simp add: rename_view_def ROB_alloc_def Let_def upd_rob_def)

lemma physregs_ROB_alloc [simp]: "physregs (ROB_alloc hw s) = physregs s"
  by (simp add: ROB_alloc_def Let_def upd_rob_def)

lemma ROB_tail_frames [simp]:
  "ROB_tail (physregs_alloc hw s) = ROB_tail s" "ROB_tail (upd_physreg i f s) = ROB_tail s"
  "ROB_tail (LSQ_alloc hw s) = ROB_tail s" "ROB_tail (upd_rob i g s) = ROB_tail s"
  by (simp_all add: physregs_alloc_def physreg_changestate_def upd_physreg_def LSQ_alloc_def upd_lsq_def
        upd_rob_def Let_def)

lemma view_upd_lsq:
  "rename_view (upd_lsq i f s)
     = (fetchq s, ROB_count s, (LSQ s)[i := f (LSQ s ! i)], LSQ_count s, LSQ_tail s,
        physreg_states s physreg_free_list, loads_in_flight s, stores_in_flight s)"
  by (simp add: rename_view_def upd_lsq_def)

lemma view_LSQ_alloc:
  "rename_view (LSQ_alloc hw s)
     = (fetchq s, ROB_count s, (LSQ s)[LSQ_tail s := (LSQ s ! LSQ_tail s)\<lparr>lsq_entry_valid := True\<rparr>],
        LSQ_count s + 1, add_index_modulo (LSQ_tail s) 1 (LSQ_SIZE hw),
        physreg_states s physreg_free_list, loads_in_flight s, stores_in_flight s)"
  by (simp add: rename_view_def LSQ_alloc_def Let_def upd_lsq_def)

lemma view_components:
  "rename_view s = (a, b, c, d, e, f, g, h) \<Longrightarrow>
     fetchq s = a \<and> ROB_count s = b \<and> LSQ s = c \<and> LSQ_count s = d \<and> LSQ_tail s = e
     \<and> physreg_states s physreg_free_list = f \<and> loads_in_flight s = g \<and> stores_in_flight s = h"
  by (simp add: rename_view_def)

lemma view_rename_alloc:
  assumes "hd (physreg_states s physreg_free_list) < length (physregs s)"
  shows "rename_view (rename_alloc hw u s)
           = (fetchq s, ROB_count s + 1,
              (if isload hw (opcode u) \<or> isstore hw (opcode u)
               then (LSQ s)[LSQ_tail s := (LSQ s ! LSQ_tail s)
                       \<lparr>lsq_entry_valid := True, lsq_rob := Some (ROB_tail s), store := isstore hw (opcode u),
                         datavalid := False, addrvalid := False, invalid := False\<rparr>]
               else LSQ s),
              LSQ_count s + (if isload hw (opcode u) \<or> isstore hw (opcode u) then 1 else 0),
              (if isload hw (opcode u) \<or> isstore hw (opcode u)
               then add_index_modulo (LSQ_tail s) 1 (LSQ_SIZE hw) else LSQ_tail s),
              tl (physreg_states s physreg_free_list), loads_in_flight s, stores_in_flight s)"
proof -
  define p where "p = hd (physreg_states (ROB_alloc hw s) physreg_free_list)"
  define s4 where "s4 = upd_physreg p (\<lambda>r. r\<lparr>flags := FLAG_WAIT hw, pr_data := 0xdeadbeefdeadbeef\<rparr>)
                          (physregs_alloc hw (ROB_alloc hw s))"
  have fl: "physreg_states (ROB_alloc hw s) physreg_free_list = physreg_states s physreg_free_list"
    by (simp add: ROB_alloc_def Let_def upd_rob_def)
  have "rename_view (physregs_alloc hw (ROB_alloc hw s))
          = (fetchq s, ROB_count s + 1, LSQ s, LSQ_count s, LSQ_tail s, tl (physreg_states s physreg_free_list),
             loads_in_flight s, stores_in_flight s)"
    using assms view_ROB_alloc [of hw s, THEN view_components]
    by (subst view_physregs_alloc) (simp_all add: fl)
  then have v4: "rename_view s4
          = (fetchq s, ROB_count s + 1, LSQ s, LSQ_count s, LSQ_tail s, tl (physreg_states s physreg_free_list),
             loads_in_flight s, stores_in_flight s)"
    by (simp add: s4_def)
  note c4 = v4 [THEN view_components]
  have t4: "ROB_tail s4 = ROB_tail (ROB_alloc hw s)" by (simp add: s4_def)
  show ?thesis
  proof (cases "isload hw (opcode u) \<or> isstore hw (opcode u)")
    case True
    have "rename_view (rename_alloc hw u s)
            = rename_view (upd_lsq (LSQ_tail s4)
                (\<lambda>l. l\<lparr>lsq_rob := Some (ROB_tail s), store := isstore hw (opcode u), datavalid := False,
                        addrvalid := False, invalid := False\<rparr>) (LSQ_alloc hw s4))"
      unfolding rename_alloc_def Let_def p_def [symmetric] s4_def [symmetric]
      using True by (simp add: view_upd_lsq upd_rob_def)
    also have "\<dots> = (fetchq s, ROB_count s + 1,
              (LSQ s)[LSQ_tail s := (LSQ s ! LSQ_tail s)
                       \<lparr>lsq_entry_valid := True, lsq_rob := Some (ROB_tail s), store := isstore hw (opcode u),
                         datavalid := False, addrvalid := False, invalid := False\<rparr>],
              LSQ_count s + 1, add_index_modulo (LSQ_tail s) 1 (LSQ_SIZE hw),
              tl (physreg_states s physreg_free_list), loads_in_flight s, stores_in_flight s)"
      using view_LSQ_alloc [of hw s4, THEN view_components] c4
      by (cases "LSQ_tail s < length (LSQ s)") (simp_all add: view_upd_lsq not_less list_update_beyond)
    finally show ?thesis using True by simp
  next
    case False
    have "rename_view (rename_alloc hw u s) = rename_view s4"
      unfolding rename_alloc_def Let_def p_def [symmetric] s4_def [symmetric]
      using False by simp
    then show ?thesis using False v4 by simp
  qed
qed

lemma view_rename_uop:
  assumes "hd (physreg_states s physreg_free_list) < length (physregs s)"
  shows "rename_view (rename_uop hw X s)
           = (tl (fetchq s), ROB_count s + 1,
              (if isload hw (opcode (hd (fetchq s))) \<or> isstore hw (opcode (hd (fetchq s)))
               then (LSQ s)[LSQ_tail s := (LSQ s ! LSQ_tail s)
                       \<lparr>lsq_entry_valid := True, lsq_rob := Some (ROB_tail s),
                         store := isstore hw (opcode (hd (fetchq s))),
                         datavalid := False, addrvalid := False, invalid := False\<rparr>]
               else LSQ s),
              LSQ_count s + (if isload hw (opcode (hd (fetchq s))) \<or> isstore hw (opcode (hd (fetchq s)))
                             then 1 else 0),
              (if isload hw (opcode (hd (fetchq s))) \<or> isstore hw (opcode (hd (fetchq s)))
               then add_index_modulo (LSQ_tail s) 1 (LSQ_SIZE hw) else LSQ_tail s),
              tl (physreg_states s physreg_free_list), loads_in_flight s, stores_in_flight s)"
proof -
  define s1 where "s1 = (bump ''frontend_status_complete'' s)\<lparr>fetchq := tl (fetchq s)\<rparr>"
  have e: "rename_view (t\<lparr>ext := x\<rparr>) = rename_view t" for x and t :: "'a core"
    by (simp add: rename_view_def)
  have c1: "fetchq s1 = tl (fetchq s)" "ROB_count s1 = ROB_count s" "LSQ s1 = LSQ s" "LSQ_count s1 = LSQ_count s"
    "LSQ_tail s1 = LSQ_tail s" "physreg_states s1 = physreg_states s" "physregs s1 = physregs s"
    "loads_in_flight s1 = loads_in_flight s" "stores_in_flight s1 = stores_in_flight s" "ROB_tail s1 = ROB_tail s"
    by (simp_all add: s1_def bump_def add_stat_def)
  have h: "fetchq (bump ''frontend_status_complete'' s) = fetchq s" by (simp add: bump_def add_stat_def)
  have "rename_view (rename_uop hw X s) = rename_view (rename_alloc hw (hd (fetchq s)) s1)"
    unfolding rename_uop_def Let_def h s1_def [symmetric]
    by (simp add: e)
  also have "\<dots> = (fetchq s1, ROB_count s1 + 1,
              (if isload hw (opcode (hd (fetchq s))) \<or> isstore hw (opcode (hd (fetchq s)))
               then (LSQ s1)[LSQ_tail s1 := (LSQ s1 ! LSQ_tail s1)
                       \<lparr>lsq_entry_valid := True, lsq_rob := Some (ROB_tail s1),
                         store := isstore hw (opcode (hd (fetchq s))),
                         datavalid := False, addrvalid := False, invalid := False\<rparr>]
               else LSQ s1),
              LSQ_count s1 + (if isload hw (opcode (hd (fetchq s))) \<or> isstore hw (opcode (hd (fetchq s)))
                             then 1 else 0),
              (if isload hw (opcode (hd (fetchq s))) \<or> isstore hw (opcode (hd (fetchq s)))
               then add_index_modulo (LSQ_tail s1) 1 (LSQ_SIZE hw) else LSQ_tail s1),
              tl (physreg_states s1 physreg_free_list), loads_in_flight s1, stores_in_flight s1)"
    using assms by (intro view_rename_alloc) (simp add: c1)
  finally show ?thesis unfolding c1 .
qed

lemma length_physregs_frames [simp]:
  "length (physregs (upd_physreg i f s)) = length (physregs s)"
  "length (physregs (addref hw i s)) = length (physregs s)"
  "length (physregs (unref hw i s)) = length (physregs s)"
  "length (physregs (specrrt_assign hw a p s)) = length (physregs s)"
  "length (physregs (physregs_alloc hw s)) = length (physregs s)"
  "length (physregs (LSQ_alloc hw s)) = length (physregs s)"
  "length (physregs (upd_lsq i g s)) = length (physregs s)"
  "length (physregs (upd_rob i h s)) = length (physregs s)"
  "length (physregs (ROB_alloc hw s)) = length (physregs s)"
  "length (physregs (rob_changestate i l s)) = length (physregs s)"
  "length (physregs (add_stat n k d s)) = length (physregs s)"
  "length (physregs (bump n s)) = length (physregs s)"
  by (simp_all add: upd_rob_def ROB_alloc_def rob_changestate_def add_stat_def bump_def upd_physreg_def addref_def unref_def specrrt_assign_def physregs_alloc_def
        LSQ_alloc_def upd_lsq_def Let_def)

lemma length_physregs_rename_uop [simp]: "length (physregs (rename_uop hw X s)) = length (physregs s)"
proof -
  have f: "length (physregs (fold (\<lambda>i. addref hw (g i)) js t)) = length (physregs t)"
    for g :: "nat \<Rightarrow> nat" and js and t :: "'a core"
    by (induction js arbitrary: t) simp_all
  have a: "length (physregs (rename_alloc hw u t)) = length (physregs t)" for u and t :: "'a core"
    by (simp add: rename_alloc_def Let_def)
  have b: "length (physregs (rename_operands hw u i t)) = length (physregs t)" for u i and t :: "'a core"
    by (simp add: rename_operands_def Let_def f)
  have c: "length (physregs (rename_dest hw u p t)) = length (physregs t)" for u p and t :: "'a core"
    by (simp add: rename_dest_def Let_def)
  show ?thesis by (simp add: rename_uop_def Let_def a b c)
qed

lemma rename_check_proceeds:
  assumes "fetchq s \<noteq> []" and "queue_remaining (ROB_SIZE hw) (ROB_count s)"
    and "physreg_states s physreg_free_list \<noteq> []"
    and "loads_in_flight s \<le> 0" and "stores_in_flight s \<le> 0" and "0 < LDQ_SIZE hw"
    and "queue_remaining (LSQ_SIZE hw) (LSQ_count s)"
  shows "rename_check hw s = rename_proceeds"
  using assms by (simp add: rename_check_def Let_def)

text \<open>Renaming the stores of \<open>example_flushed\<close>.\<close>

lemma example_flushed_view:
  "rename_view example_flushed
     = ([example_uop 2 0x1000, example_uop 2 0x1004, example_uop 2 0x1008], 0,
        replicate 4 ((example_lsq False False 0 0)\<lparr>lsq_entry_valid := False, lsq_rob := None\<rparr>),
        0, 0, [0, 1, 2, 3, 4, 5, 6], 0, 0)"
  "length (physregs example_flushed) = 8"
  by (simp_all add: rename_view_def example_flushed_def)

lemma example_hw_rename:
  "isstore example_hw (opcode (example_uop 2 r))" "\<not> isload example_hw (opcode (example_uop 2 r))"
  "LSQ_SIZE example_hw = 4" "ROB_SIZE example_hw = 4" "LDQ_SIZE example_hw = 2" "STQ_SIZE example_hw = 2"
  "FRONTEND_WIDTH example_hw = Suc (Suc 0)"
  by (simp_all add: example_hw_def example_uop_def LSQ_SIZE_def)

lemma rename_store:
  assumes v: "rename_view s = (example_uop 2 r # q, c, l, int k, k, p # f, 0, 0)"
    and p: "p < length (physregs s)" and k: "k < 3" and c: "c < 4"
  shows "rename_check example_hw s = rename_proceeds"
    and "rename_view (rename_uop example_hw X s)
           = (q, c + 1,
              l[k := (l ! k)\<lparr>lsq_entry_valid := True, lsq_rob := Some (ROB_tail s), store := True,
                              datavalid := False, addrvalid := False, invalid := False\<rparr>],
              int (Suc k), Suc k, f, 0, 0)"
proof -
  note vc = view_components [OF v]
  show "rename_check example_hw s = rename_proceeds"
    using k c by (intro rename_check_proceeds) (simp_all add: vc example_hw_rename queue_remaining_def)
  have "hd (physreg_states s physreg_free_list) < length (physregs s)" using p by (simp add: vc)
  from view_rename_uop [OF this, of example_hw X]
  show "rename_view (rename_uop example_hw X s)
           = (q, c + 1,
              l[k := (l ! k)\<lparr>lsq_entry_valid := True, lsq_rob := Some (ROB_tail s), store := True,
                              datavalid := False, addrvalid := False, invalid := False\<rparr>],
              int (Suc k), Suc k, f, 0, 0)"
    using k by (simp add: vc example_hw_rename add_index_modulo_def)
qed

lemma example_renamed_steps:
  fixes s1 s2 :: "unit core"
  defines "s1 \<equiv> rename_uop example_hw example_extern example_flushed"
  defines "s2 \<equiv> rename_uop example_hw example_extern s1"
  shows "example_renamed = add_stat ''frontend_width_histogram'' 2 1 s2"
    and "\<exists>l. rename_view s2 = ([example_uop 2 0x1008], 2, l, int 2, 2, [2, 3, 4, 5, 6], 0, 0)
            \<and> store (l ! 0) \<and> lsq_entry_valid (l ! 0) \<and> store (l ! 1) \<and> lsq_entry_valid (l ! 1)
            \<and> length l = 4"
    and "length (physregs s2) = 8"
proof -
  have v0: "rename_view example_flushed
     = (example_uop 2 0x1000 # [example_uop 2 0x1004, example_uop 2 0x1008], 0,
        replicate 4 ((example_lsq False False 0 0)\<lparr>lsq_entry_valid := False, lsq_rob := None\<rparr>),
        int 0, 0, 0 # [1, 2, 3, 4, 5, 6], 0, 0)"
    by (simp add: example_flushed_view)
  have c0: "rename_check example_hw example_flushed = rename_proceeds"
    by (rule rename_store(1) [OF v0]) (simp_all add: example_flushed_view)
  have v1: "rename_view s1
     = (example_uop 2 0x1004 # [example_uop 2 0x1008], 0 + 1,
        (replicate 4 ((example_lsq False False 0 0)\<lparr>lsq_entry_valid := False, lsq_rob := None\<rparr>))
          [0 := (replicate 4 ((example_lsq False False 0 0)\<lparr>lsq_entry_valid := False, lsq_rob := None\<rparr>) ! 0)
                  \<lparr>lsq_entry_valid := True, lsq_rob := Some (ROB_tail example_flushed), store := True,
                    datavalid := False, addrvalid := False, invalid := False\<rparr>],
        int (Suc 0), Suc 0, Suc 0 # [2, 3, 4, 5, 6], 0, 0)"
    unfolding s1_def using rename_store(2) [OF v0, of example_extern]
    by (simp add: example_flushed_view)
  have l1: "length (physregs s1) = 8" by (simp add: s1_def example_flushed_view)
  have c1: "rename_check example_hw s1 = rename_proceeds"
    by (rule rename_store(1) [OF v1]) (simp_all add: l1)
  define l where "l = (replicate 4 ((example_lsq False False 0 0)\<lparr>lsq_entry_valid := False, lsq_rob := None\<rparr>))
          [0 := (replicate 4 ((example_lsq False False 0 0)\<lparr>lsq_entry_valid := False, lsq_rob := None\<rparr>) ! 0)
                  \<lparr>lsq_entry_valid := True, lsq_rob := Some (ROB_tail example_flushed), store := True,
                    datavalid := False, addrvalid := False, invalid := False\<rparr>]"
  have ll: "store (l ! 0)" "lsq_entry_valid (l ! 0)" "length l = 4" by (simp_all add: l_def)
  have v2: "rename_view s2
     = ([example_uop 2 0x1008], 0 + 1 + 1,
        l[Suc 0 := (l ! Suc 0)\<lparr>lsq_entry_valid := True, lsq_rob := Some (ROB_tail s1), store := True,
                    datavalid := False, addrvalid := False, invalid := False\<rparr>],
        int (Suc (Suc 0)), Suc (Suc 0), [2, 3, 4, 5, 6], 0, 0)"
    unfolding s2_def l_def using rename_store(2) [OF v1, of example_extern]
    by (simp add: l1)
  show "\<exists>l. rename_view s2 = ([example_uop 2 0x1008], 2, l, int 2, 2, [2, 3, 4, 5, 6], 0, 0)
            \<and> store (l ! 0) \<and> lsq_entry_valid (l ! 0) \<and> store (l ! 1) \<and> lsq_entry_valid (l ! 1)
            \<and> length l = 4"
    unfolding v2 using ll by (simp add: numeral_2_eq_2)
  show "length (physregs s2) = 8" by (simp add: s2_def l1)
  show "example_renamed = add_stat ''frontend_width_histogram'' 2 1 s2"
    unfolding example_renamed_def rename_def example_hw_rename
    by (simp add: c0 c1 s1_def [symmetric] s2_def [symmetric] numeral_2_eq_2)
qed

lemma example_renamed_facts:
  "fetchq example_renamed = [example_uop 2 0x1008]" "ROB_count example_renamed = 2"
  "LSQ_count example_renamed = 2" "LSQ_tail example_renamed = 2"
  "physreg_states example_renamed physreg_free_list = [2, 3, 4, 5, 6]"
  "loads_in_flight example_renamed = 0" "stores_in_flight example_renamed = 0"
  "store (LSQ example_renamed ! 0)" "lsq_entry_valid (LSQ example_renamed ! 0)"
  "store (LSQ example_renamed ! 1)" "lsq_entry_valid (LSQ example_renamed ! 1)"
  "length (LSQ example_renamed) = 4"
  "length (physregs example_renamed) = 8"
proof -
  obtain l where v: "rename_view example_renamed = ([example_uop 2 0x1008], 2, l, int 2, 2, [2, 3, 4, 5, 6], 0, 0)"
    and l: "store (l ! 0)" "lsq_entry_valid (l ! 0)" "store (l ! 1)" "lsq_entry_valid (l ! 1)" "length l = 4"
    using example_renamed_steps(2) unfolding example_renamed_steps(1) view_add_stat by blast
  note vc = view_components [OF v]
  show "fetchq example_renamed = [example_uop 2 0x1008]" "ROB_count example_renamed = 2"
  "LSQ_count example_renamed = 2" "LSQ_tail example_renamed = 2"
  "physreg_states example_renamed physreg_free_list = [2, 3, 4, 5, 6]"
  "loads_in_flight example_renamed = 0" "stores_in_flight example_renamed = 0"
  "store (LSQ example_renamed ! 0)" "lsq_entry_valid (LSQ example_renamed ! 0)"
  "store (LSQ example_renamed ! 1)" "lsq_entry_valid (LSQ example_renamed ! 1)"
  "length (LSQ example_renamed) = 4"
    using l by (simp_all add: vc)
  show "length (physregs example_renamed) = 8"
    unfolding example_renamed_steps(1) using example_renamed_steps(3) by simp
qed

lemma example_third_store:
  "LSQ_count (rename example_hw example_extern example_renamed) = 3"
  "store (LSQ (rename example_hw example_extern example_renamed) ! 2)"
  "lsq_entry_valid (LSQ (rename example_hw example_extern example_renamed) ! 2)"
  "stores_in_flight (rename example_hw example_extern example_renamed) = 0"
proof -
  define s3 :: "unit core" where "s3 = rename_uop example_hw example_extern example_renamed"
  have v: "rename_view example_renamed
             = (example_uop 2 0x1008 # [], 2, LSQ example_renamed, int 2, 2, 2 # [3, 4, 5, 6], 0, 0)"
    by (simp add: rename_view_def example_renamed_facts)
  have c: "rename_check example_hw example_renamed = rename_proceeds"
    by (rule rename_store(1) [OF v]) (simp_all add: example_renamed_facts)
  have v3: "rename_view s3
     = ([], 2 + 1,
        (LSQ example_renamed)[2 := (LSQ example_renamed ! 2)\<lparr>lsq_entry_valid := True, lsq_rob := Some (ROB_tail example_renamed), store := True,
                    datavalid := False, addrvalid := False, invalid := False\<rparr>],
        int (Suc 2), Suc 2, [3, 4, 5, 6], 0, 0)"
    unfolding s3_def by (rule rename_store(2) [OF v]) (simp_all add: example_renamed_facts)
  note vc = view_components [OF v3]
  have c3: "rename_check example_hw s3 = rename_fetchq_empty"
    by (simp add: rename_check_def vc)
  have len: "length (LSQ example_renamed) = 4" by (rule example_renamed_facts)
  have r: "rename example_hw example_extern example_renamed
             = add_stat ''frontend_width_histogram'' 1 1 (bump ''frontend_status_fetchq_empty'' s3)"
    unfolding rename_def example_hw_rename by (simp add: c c3 s3_def [symmetric])
  have w: "rename_view (rename example_hw example_extern example_renamed) = rename_view s3"
    unfolding r by simp
  note wc = view_components [OF w [unfolded v3]]
  show "LSQ_count (rename example_hw example_extern example_renamed) = 3"
  "store (LSQ (rename example_hw example_extern example_renamed) ! 2)"
  "lsq_entry_valid (LSQ (rename example_hw example_extern example_renamed) ! 2)"
  "stores_in_flight (rename example_hw example_extern example_renamed) = 0"
    using len by (simp_all add: wc)
qed

subsection \<open>The range of the forwarding cycle counter\<close>



subsection \<open>The deadlock warning of the top-level loop\<close>

text \<open>
  A stretch of cycles without a commit, none of which reaches the warning, only advances
  the counters.
\<close>

lemma run_quiet:
  "unat (drv_iterations d) + n \<le> unat si \<Longrightarrow> drv_total_user_insns_committed d < su \<Longrightarrow>
   unat (drv_sim_cycle d - drv_last_commit_at_cycle d) + n \<le> 1025 \<Longrightarrow>
   toplevel_loop si su (replicate n (quiet_cycle (drv_total_user_insns_committed d)) @ rest) d
     = toplevel_loop si su rest
         (d\<lparr>drv_iterations := drv_iterations d + of_nat n, drv_sim_cycle := drv_sim_cycle d + of_nat n\<rparr>)"
proof (induction n arbitrary: d)
  case 0
  then show ?case by simp
next
  case (Suc n)
  let ?g = "drv_sim_cycle d - drv_last_commit_at_cycle d"
  have it: "drv_iterations d < si"
    using Suc.prems(1) by (simp add: word_less_nat_alt)
  have gap: "\<not> ?g > 1024"
    using Suc.prems(3) by (simp add: word_less_nat_alt)
  have it1: "unat (drv_iterations d + 1) = unat (drv_iterations d) + 1"
  proof -
    have "unat (drv_iterations d) < unat si" using it by (simp add: word_less_nat_alt)
    moreover have "unat si < 2 ^ 64" using unsigned_less [of si, where 'a = nat] by simp
    ultimately have "unat (drv_iterations d) + unat (1::W64) < 2 ^ LENGTH(64)" by simp
    then show ?thesis by (simp add: unat_add_lem [THEN iffD1])
  qed
  have g1: "unat (?g + 1) = unat ?g + 1"
  proof -
    have "unat ?g + unat (1::W64) < 2 ^ LENGTH(64)" using Suc.prems(3) by simp
    then show ?thesis by (simp add: unat_add_lem [THEN iffD1])
  qed
  let ?d' = "d\<lparr>drv_iterations := drv_iterations d + 1, drv_sim_cycle := drv_sim_cycle d + 1\<rparr>"
  have step: "toplevel_loop si su (replicate (Suc n) (quiet_cycle (drv_total_user_insns_committed d)) @ rest) d
     = toplevel_loop si su (replicate n (quiet_cycle (drv_total_user_insns_committed ?d')) @ rest) ?d'"
    using it Suc.prems(2) gap by (simp add: quiet_cycle_def)
  have ih: "toplevel_loop si su (replicate n (quiet_cycle (drv_total_user_insns_committed ?d')) @ rest) ?d'
     = toplevel_loop si su rest (?d'\<lparr>drv_iterations := drv_iterations ?d' + of_nat n, drv_sim_cycle := drv_sim_cycle ?d' + of_nat n\<rparr>)"
  proof (rule Suc.IH)
    show "unat (drv_iterations ?d') + n \<le> unat si" using Suc.prems(1) it1 by simp
    show "drv_total_user_insns_committed ?d' < su" using Suc.prems(2) by simp
    have "drv_sim_cycle ?d' - drv_last_commit_at_cycle ?d' = ?g + 1" by simp
    then have "unat (drv_sim_cycle ?d' - drv_last_commit_at_cycle ?d') = unat ?g + 1"
      using g1 by presburger
    then show "unat (drv_sim_cycle ?d' - drv_last_commit_at_cycle ?d') + n \<le> 1025"
      using Suc.prems(3) by linarith
  qed
  have e: "?d'\<lparr>drv_iterations := drv_iterations ?d' + of_nat n, drv_sim_cycle := drv_sim_cycle ?d' + of_nat n\<rparr>
      = d\<lparr>drv_iterations := drv_iterations d + of_nat (Suc n), drv_sim_cycle := drv_sim_cycle d + of_nat (Suc n)\<rparr>"
    by (simp add: ac_simps)
  show ?case unfolding step ih e ..
qed


text \<open>
  C8, as amended. At the top of an iteration, with the iteration and instruction limits
  not reached, the driver reports the warning, naming \<open>sim_cycle - last_commit_at_cycle\<close>,
  and leaves the loop when that difference is greater than 1024; when it is not, the
  iteration adds no warning. After a cycle in which a uop commits, 1024 cycles without a
  commit run, and the warning comes at the top of the next one and names 1025 cycles.
\<close>

theorem deadlock_warning_threshold:
  assumes "drv_iterations d < si" and "drv_total_user_insns_committed d < su"
  shows "(drv_sim_cycle d - drv_last_commit_at_cycle d > 1024 \<longrightarrow>
            toplevel_loop si su (oc # ocs) d
              = d\<lparr>drv_running := False,
                   warnings := warnings d @ [(drv_sim_cycle d, drv_sim_cycle d - drv_last_commit_at_cycle d)]\<rparr>)
         \<and> (\<not> drv_sim_cycle d - drv_last_commit_at_cycle d > 1024 \<longrightarrow>
              warnings (toplevel_loop si su [oc] d) = warnings d)
         \<and> (\<not> drv_sim_cycle d - drv_last_commit_at_cycle d > 1024 \<and> n < su
              \<and> unat (drv_iterations d) + 1026 \<le> unat si \<longrightarrow>
              warnings (toplevel_loop si su (commit_cycle n # replicate 1024 (quiet_cycle n) @ oc # ocs) d)
                = warnings d @ [(drv_sim_cycle d + 1025, 1025)])"
proof (intro conjI impI)
  assume "drv_sim_cycle d - drv_last_commit_at_cycle d > 1024"
  then show "toplevel_loop si su (oc # ocs) d
              = d\<lparr>drv_running := False,
                   warnings := warnings d @ [(drv_sim_cycle d, drv_sim_cycle d - drv_last_commit_at_cycle d)]\<rparr>"
    using assms by simp
next
  assume "\<not> drv_sim_cycle d - drv_last_commit_at_cycle d > 1024"
  then show "warnings (toplevel_loop si su [oc] d) = warnings d"
    using assms by (simp add: Let_def)
next
  assume h: "\<not> drv_sim_cycle d - drv_last_commit_at_cycle d > 1024 \<and> n < su
              \<and> unat (drv_iterations d) + 1026 \<le> unat si"
  let ?d2 = "d\<lparr>drv_last_commit_at_cycle := drv_sim_cycle d, drv_total_user_insns_committed := n,
               drv_iterations := drv_iterations d + 1, drv_sim_cycle := drv_sim_cycle d + 1\<rparr>"
  let ?d3 = "?d2\<lparr>drv_iterations := drv_iterations ?d2 + of_nat 1024,
                 drv_sim_cycle := drv_sim_cycle ?d2 + of_nat 1024\<rparr>"
  have it1: "unat (drv_iterations d + 1) = unat (drv_iterations d) + 1"
  proof -
    have "unat si < 2 ^ 64" using unsigned_less [of si, where 'a = nat] by simp
    then have "unat (drv_iterations d) + unat (1::W64) < 2 ^ LENGTH(64)" using h by simp
    then show ?thesis by (simp add: unat_add_lem [THEN iffD1])
  qed
  have first: "toplevel_loop si su (commit_cycle n # replicate 1024 (quiet_cycle n) @ oc # ocs) d
                 = toplevel_loop si su (replicate 1024 (quiet_cycle (drv_total_user_insns_committed ?d2)) @ oc # ocs) ?d2"
    using assms h by (simp add: commit_cycle_def)
  have quiet: "toplevel_loop si su (replicate 1024 (quiet_cycle (drv_total_user_insns_committed ?d2)) @ oc # ocs) ?d2
                 = toplevel_loop si su (oc # ocs) ?d3"
  proof (rule run_quiet)
    show "unat (drv_iterations ?d2) + 1024 \<le> unat si" using h it1 by simp
    show "drv_total_user_insns_committed ?d2 < su" using h by simp
    show "unat (drv_sim_cycle ?d2 - drv_last_commit_at_cycle ?d2) + 1024 \<le> 1025" by simp
  qed
  have it3: "drv_iterations ?d3 < si"
  proof -
    have "unat si < 2 ^ 64" using unsigned_less [of si, where 'a = nat] by simp
    then have "unat (drv_iterations d) + unat (1025::W64) < 2 ^ LENGTH(64)" using h by simp
    then have "unat (drv_iterations d + 1025) = unat (drv_iterations d) + 1025"
      by (simp add: unat_add_lem [THEN iffD1])
    then have "unat (drv_iterations d + 1025) < unat si" using h by simp
    then show ?thesis by (simp add: word_less_nat_alt add.assoc)
  qed
  have gap3: "drv_sim_cycle ?d3 - drv_last_commit_at_cycle ?d3 = 1025" by simp
  have last: "toplevel_loop si su (oc # ocs) ?d3
                = ?d3\<lparr>drv_running := False, warnings := warnings ?d3 @ [(drv_sim_cycle ?d3, 1025)]\<rparr>"
    using it3 h gap3 by simp
  show "warnings (toplevel_loop si su (commit_cycle n # replicate 1024 (quiet_cycle n) @ oc # ocs) d)
                = warnings d @ [(drv_sim_cycle d + 1025, 1025)]"
    unfolding first quiet last by (simp add: add.assoc)
qed

text \<open>
  C8 as stated fails at the start of a run: \<open>last_commit_at_cycle\<close> starts at 0 like
  \<open>sim_cycle\<close>, and 1025 cycles without any commit run to their end with no warning: the
  1024 that elapse first do not make the driver report anything at the top of the next.
\<close>

theorem deadlock_warning_counterexample:
  "warnings (toplevel_loop 1000000 1000000 (replicate 1025 (quiet_cycle 0)) driver_init) = []
   \<and> drv_running (toplevel_loop 1000000 1000000 (replicate 1025 (quiet_cycle 0)) driver_init)
   \<and> drv_sim_cycle (toplevel_loop 1000000 1000000 (replicate 1025 (quiet_cycle 0)) driver_init) = 1025"
proof -
  have "toplevel_loop 1000000 1000000
          (replicate 1025 (quiet_cycle (drv_total_user_insns_committed driver_init)) @ []) driver_init
        = toplevel_loop 1000000 1000000 []
            (driver_init\<lparr>drv_iterations := drv_iterations driver_init + of_nat 1025,
                          drv_sim_cycle := drv_sim_cycle driver_init + of_nat 1025\<rparr>)"
    by (rule run_quiet) (simp_all add: driver_init_def)
  then show ?thesis by (simp add: driver_init_def)
qed

theorem deadlock_warning_threshold_witness:
  "warnings (toplevel_loop 1000000 1000000
      (commit_cycle 1 # replicate 1024 (quiet_cycle 1) @ [quiet_cycle 1]) driver_init)
     = [(1025, 1025)]"
  using deadlock_warning_threshold [where d = driver_init and si = 1000000 and su = 1000000
          and n = 1 and oc = "quiet_cycle 1" and ocs = "[]"]
  by (simp add: driver_init_def)

subsection \<open>Store issue: an unmapped high block\<close>

text \<open>
  Claim C6. A store of the high-half variant (\<open>LDST_ALIGN_HI\<close>) whose access, of
  \<open>1 << size\<close> bytes from the original address, ends in the 8-byte block it starts in
  touches no byte of the high block (\<open>size\<close> is a 2-bit field of the uop, at most 3). For
  such a store the local \<open>exception\<close> of \<open>issuestore\<close> is 0 whatever the address space
  says about the high block, \<open>issuestore\<close> does not take its exception exit but goes on
  to the scan of the LSQ, and its whole result is what it would be if every page were
  mapped writable. When it completes, the LSQ entry of the store is not marked invalid:
  it carries the data to store, not an exception code.
\<close>

theorem high_half_store_no_page_fault:
  assumes "cond (uop (ROB s ! idx)) = LDST_ALIGN_HI"
    and "uop_size (uop (ROB s ! idx)) \<le> 3"
    and "floor_w (((va + vb) AND virt_addr_mask hw) + (push_bit (uop_size (uop (ROB s ! idx))) 1 - 1)) 8
           = floor_w ((va + vb) AND virt_addr_mask hw) 8"
  shows "issuestore_exception hw X (uop (ROB s ! idx)) va vb = 0
         \<and> issuestore hw X idx va vb vc rcready s
             = issuestore_continue hw X idx (lsq (ROB s ! idx)) ((va + vb) AND virt_addr_mask hw) vc rcready
                 (issuestore_resolve hw idx va vb s)
         \<and> issuestore hw X idx va vb vc rcready s
             = issuestore hw (X\<lparr>asp_fastcheck_write := \<lambda>addr. True\<rparr>) idx va vb vc rcready s
         \<and> (\<forall>s'. issuestore hw X idx va vb vc rcready s = Some (ISSUE_COMPLETED, s')
                  \<and> lsq (ROB s ! idx) < length (LSQ s)
                \<longrightarrow> \<not> invalid (LSQ s' ! lsq (ROB s ! idx)) \<and> datavalid (LSQ s' ! lsq (ROB s ! idx)))"
proof -
  let ?u = "uop (ROB s ! idx)"
  let ?li = "lsq (ROB s ! idx)"
  let ?raddr = "(va + vb) AND virt_addr_mask hw"
  let ?s2 = "issuestore_resolve hw idx va vb s"
  have addr: "issuestore_addr hw ?u va vb
                = (?raddr, lowbits (floor_w ?raddr 8 + 8) (VIRT_ADDR_BITS hw), True)"
    using assms(1,3) by (simp add: issuestore_addr_def Let_def)
  have al: "lowbits (lowbits (floor_w ?raddr 8 + 8) (VIRT_ADDR_BITS hw)) (uop_size ?u) = 0"
    using assms(2) by (rule high_block_aligned)
  have e: "issuestore_exception hw Y ?u va vb = 0" for Y :: "'a extern"
    using al by (simp add: issuestore_exception_def addr check_access_alignment_def)
  have c: "issuestore hw Y idx va vb vc rcready s
             = issuestore_continue hw Y idx ?li ?raddr vc rcready ?s2" for Y :: "'a extern"
    unfolding issuestore_def Let_def addr prod.case e by simp
  have i: "issuestore hw X idx va vb vc rcready s
             = issuestore hw (X\<lparr>asp_fastcheck_write := \<lambda>addr. True\<rparr>) idx va vb vc rcready s"
    unfolding c issuestore_continue_fastcheck ..
  have v: "\<not> invalid (LSQ s' ! ?li) \<and> datavalid (LSQ s' ! ?li)"
    if "issuestore hw X idx va vb vc rcready s = Some (ISSUE_COMPLETED, s')" and li: "?li < length (LSQ s)" for s'
  proof -
    have "\<exists>sfra. s' = issuestore_merge idx sfra ?raddr vc ?s2"
      using that(1) [unfolded c] by (rule issuestore_continue_completed)
    then obtain sfra where s': "s' = issuestore_merge idx sfra ?raddr vc ?s2" ..
    obtain d m where "LSQ s' = (LSQ ?s2)[lsq (ROB ?s2 ! idx) :=
        (LSQ ?s2 ! lsq (ROB ?s2 ! idx))\<lparr>invalid := False, data := d, bytemask := m, datavalid := True\<rparr>]"
      unfolding s' using LSQ_issuestore_merge [of idx sfra ?raddr vc ?s2] by blast
    then show ?thesis using li by (simp add: ROB_issuestore_resolve)
  qed
  show ?thesis using e [of X] c [of X] i v by blast
qed

text \<open>
  A 4-byte store to \<open>0x1000\<close> whose high block, at \<open>0x1008\<close>, is on a page that is not
  mapped: it completes, and its LSQ entry is valid.
\<close>

theorem high_half_store_no_page_fault_witness:
  "\<not> asp_fastcheck_write example_unmapped 0x1008
   \<and> issuestore_exception example_hw example_unmapped (uop (ROB example_split_store ! 0)) 0x1000 0 = 0
   \<and> map_option fst (issuestore example_hw example_unmapped 0 0x1000 0 0 True example_split_store)
       = Some ISSUE_COMPLETED
   \<and> \<not> invalid (LSQ (snd (the (issuestore example_hw example_unmapped 0 0x1000 0 0 True example_split_store))) ! 0)"
proof -
  have u: "\<not> asp_fastcheck_write example_unmapped 0x1008"
    by (simp add: example_unmapped_def example_extern_def)
  have h: "cond (uop (ROB example_split_store ! 0)) = LDST_ALIGN_HI"
    "uop_size (uop (ROB example_split_store ! 0)) \<le> 3"
    "floor_w (((0x1000 + 0) AND virt_addr_mask example_hw)
                  + (push_bit (uop_size (uop (ROB example_split_store ! 0))) 1 - 1)) 8
           = floor_w ((0x1000 + 0) AND virt_addr_mask example_hw) 8"
    by (simp_all add: example_split_store_def upd_rob_def example_defs floor_w_def)
  have li: "lsq (ROB example_split_store ! 0) = 0" "lsq (ROB example_split_store ! 0) < length (LSQ example_split_store)"
    by (simp_all add: example_split_store_def upd_rob_def example_defs)
  have n: "LSQ_SIZE example_hw = 4" by (simp add: LSQ_SIZE_def example_hw_def)
  have i1: "add_index_modulo 0 1 4 = 1" and i2: "add_index_modulo 1 1 4 = 2" by (simp_all add: add_index_modulo_def)
  have scan: "store_scan_backward example_hw 0 (issuestore_resolve example_hw 0 0x1000 0 example_split_store)
                = Some None"
    by (simp add: store_scan_backward_def example_split_resolve)
  have fwd: "load_scan_forward example_hw 0 (issuestore_resolve example_hw 0 0x1000 0 example_split_store)
               = Some None"
    unfolding load_scan_forward_def n i1
    by (simp add: ring_find_step example_split_resolve example_lsq_def add_index_modulo_def)
  from high_half_store_no_page_fault [OF h, of example_unmapped 0 True]
  have e: "issuestore_exception example_hw example_unmapped (uop (ROB example_split_store ! 0)) 0x1000 0 = 0"
    and c: "issuestore example_hw example_unmapped 0 0x1000 0 0 True example_split_store
             = issuestore_continue example_hw example_unmapped 0 0 ((0x1000 + 0) AND virt_addr_mask example_hw) 0 True
                 (issuestore_resolve example_hw 0 0x1000 0 example_split_store)"
    and v: "\<And>s'. issuestore example_hw example_unmapped 0 0x1000 0 0 True example_split_store = Some (ISSUE_COMPLETED, s')
              \<Longrightarrow> \<not> invalid (LSQ s' ! 0)"
    using li by auto
  have "\<exists>s'. issuestore example_hw example_unmapped 0 0x1000 0 0 True example_split_store = Some (ISSUE_COMPLETED, s')"
    unfolding c by (simp add: issuestore_continue_def scan fwd)
  then obtain s' where s': "issuestore example_hw example_unmapped 0 0x1000 0 0 True example_split_store
                              = Some (ISSUE_COMPLETED, s')" ..
  show ?thesis using u e v [OF s'] by (simp add: s')
qed

subsection \<open>Reference counts and the null register\<close>

lemma length_fold_count_ref: "length (fold count_ref ks rs) = length rs"
  by (induction ks arbitrary: rs) (simp_all add: count_ref_def)

lemma fold_count_ref_nth:
  "i < length rs \<Longrightarrow> fold count_ref ks rs ! i = rs ! i + int (count_list ks i)"
proof (induction ks arbitrary: rs)
  case Nil
  then show ?case by simp
next
  case (Cons k ks)
  have "fold count_ref (k # ks) rs ! i = count_ref k rs ! i + int (count_list ks i)"
    using Cons.prems by (simp add: Cons.IH count_ref_def)
  also have "count_ref k rs ! i = rs ! i + (if k = i then 1 else 0)"
    using Cons.prems by (simp add: count_ref_def)
  finally show ?case by simp
qed

lemma fold_fold_count_ref:
  "fold (\<lambda>i rs. fold (\<lambda>j. count_ref (g i j)) js rs) is rs
     = fold count_ref (concat (map (\<lambda>i. map (g i) js) is)) rs"
  by (induction "is" arbitrary: rs) (simp_all add: fold_map comp_def)

lemma fold_pair_count_ref:
  "fold (\<lambda>i rs. count_ref (h i) (count_ref (g i) rs)) is rs
     = fold count_ref (concat (map (\<lambda>i. [g i, h i]) is)) rs"
  by (induction "is" arbitrary: rs) simp_all

lemma expected_refcounts_eq:
  "expected_refcounts hw s =
     map_option (\<lambda>robs. (fold count_ref (reference_slots hw s robs)
                           (replicate (PHYS_REG_FILE_SIZE hw) 0))[PHYS_REG_NULL hw := 0])
       (ring_fwd (ROB_SIZE hw) (ROB_SIZE hw) (ROB_head s) (ROB_tail s))"
  by (simp add: expected_refcounts_def reference_slots_def fold_fold_count_ref
        fold_pair_count_ref Let_def split: option.split)

text \<open>
  C9. \<open>addref\<close> and \<open>unref\<close> on the register \<open>PHYS_REG_NULL\<close> leave the whole state as
  it is, and on any register they leave the reference count of \<open>PHYS_REG_NULL\<close> as it is,
  however many slots name it. The checker compares the count of every register but
  \<open>PHYS_REG_NULL\<close> with the number of operand slots of the ROB entries in flight and of
  rename table slots that name it, and the count of \<open>PHYS_REG_NULL\<close>, and only that one,
  with 0.
\<close>

theorem null_register_not_counted:
  assumes "ring_fwd (ROB_SIZE hw) (ROB_SIZE hw) (ROB_head s) (ROB_tail s) = Some robs"
    and "PHYS_REG_NULL hw < PHYS_REG_FILE_SIZE hw"
    and "i < PHYS_REG_FILE_SIZE hw"
  shows "addref hw (PHYS_REG_NULL hw) s = s \<and> unref hw (PHYS_REG_NULL hw) s = s
         \<and> refcount (physregs (addref hw i s) ! PHYS_REG_NULL hw) = refcount (physregs s ! PHYS_REG_NULL hw)
         \<and> refcount (physregs (unref hw i s) ! PHYS_REG_NULL hw) = refcount (physregs s ! PHYS_REG_NULL hw)
         \<and> (\<exists>refcounts. expected_refcounts hw s = Some refcounts
               \<and> refcounts ! i = (if i = PHYS_REG_NULL hw then 0
                                   else int (count_list (reference_slots hw s robs) i))
               \<and> check_refcounts hw s
                   = Some (\<exists>k < PHYS_REG_FILE_SIZE hw.
                             refcount (physregs s ! k) \<noteq>
                               (if k = PHYS_REG_NULL hw then 0
                                else int (count_list (reference_slots hw s robs) k))))"
proof -
  let ?rs = "fold count_ref (reference_slots hw s robs) (replicate (PHYS_REG_FILE_SIZE hw) 0)"
  have nth: "?rs[PHYS_REG_NULL hw := 0] ! k
               = (if k = PHYS_REG_NULL hw then 0 else int (count_list (reference_slots hw s robs) k))"
    if "k < PHYS_REG_FILE_SIZE hw" for k
    using that by (simp add: length_fold_count_ref fold_count_ref_nth nth_list_update)
  have ex: "expected_refcounts hw s = Some (?rs[PHYS_REG_NULL hw := 0])"
    by (simp add: expected_refcounts_eq assms(1))
  have chk: "check_refcounts hw s
               = Some (\<exists>k < PHYS_REG_FILE_SIZE hw.
                         refcount (physregs s ! k) \<noteq>
                           (if k = PHYS_REG_NULL hw then 0
                            else int (count_list (reference_slots hw s robs) k)))"
  proof -
    have "list_ex (\<lambda>k. refcount (physregs s ! k) \<noteq> ?rs[PHYS_REG_NULL hw := 0] ! k) [0..<PHYS_REG_FILE_SIZE hw]
            = (\<exists>k. k < PHYS_REG_FILE_SIZE hw \<and> refcount (physregs s ! k) \<noteq> ?rs[PHYS_REG_NULL hw := 0] ! k)"
      by (auto simp add: list_ex_iff)
    also have "\<dots> = (\<exists>k. k < PHYS_REG_FILE_SIZE hw \<and>
                         refcount (physregs s ! k) \<noteq>
                           (if k = PHYS_REG_NULL hw then 0
                            else int (count_list (reference_slots hw s robs) k)))"
      by (rule ex_cong1, rule conj_cong, rule refl, simp only: nth)
    finally show ?thesis unfolding check_refcounts_def ex by simp
  qed
  have a: "addref hw (PHYS_REG_NULL hw) s = s" "unref hw (PHYS_REG_NULL hw) s = s"
    by (simp_all add: addref_def unref_def nonnull_def)
  have b: "refcount (physregs (addref hw i s) ! PHYS_REG_NULL hw) = refcount (physregs s ! PHYS_REG_NULL hw)"
    by (simp add: addref_def nonnull_def upd_physreg_def)
  have c: "refcount (physregs (unref hw i s) ! PHYS_REG_NULL hw) = refcount (physregs s ! PHYS_REG_NULL hw)"
    by (simp add: unref_def nonnull_def upd_physreg_def)
  show ?thesis using a b c ex chk nth [OF assms(3)] by simp
qed

text \<open>On the small machine, whose null register is register 7.\<close>

theorem null_register_not_counted_witness:
  "addref example_hw (PHYS_REG_NULL example_hw) example_core = example_core
   \<and> unref example_hw (PHYS_REG_NULL example_hw) example_core = example_core
   \<and> refcount (physregs (addref example_hw 7 example_core) ! PHYS_REG_NULL example_hw)
       = refcount (physregs example_core ! PHYS_REG_NULL example_hw)
   \<and> refcount (physregs (unref example_hw 7 example_core) ! PHYS_REG_NULL example_hw)
       = refcount (physregs example_core ! PHYS_REG_NULL example_hw)
   \<and> (\<exists>refcounts. expected_refcounts example_hw example_core = Some refcounts
         \<and> refcounts ! 7 = (if 7 = PHYS_REG_NULL example_hw then 0
                              else int (count_list (reference_slots example_hw example_core [0, 1, 2]) 7))
         \<and> check_refcounts example_hw example_core
             = Some (\<exists>k < PHYS_REG_FILE_SIZE example_hw.
                       refcount (physregs example_core ! k) \<noteq>
                         (if k = PHYS_REG_NULL example_hw then 0
                          else int (count_list (reference_slots example_hw example_core [0, 1, 2]) k))))"
proof (rule null_register_not_counted)
  show "ring_fwd (ROB_SIZE example_hw) (ROB_SIZE example_hw) (ROB_head example_core) (ROB_tail example_core)
          = Some [0, 1, 2]"
    by (simp add: example_defs add_index_modulo_def eval_nat_numeral)
  show "PHYS_REG_NULL example_hw < PHYS_REG_FILE_SIZE example_hw" by (simp add: example_hw_def)
  show "7 < PHYS_REG_FILE_SIZE example_hw" by (simp add: example_hw_def)
qed

subsection \<open>A branch that goes where it was predicted to go\<close>

text \<open>
  Claim C7. \<open>issue\<close> is run on a branch uop that finds a functional unit, whose operands
  carry no invalid flag and whose semantic callback produces the target \<open>riptaken\<close> the
  uop was fetched with. Then \<open>issue\<close> returns 1 and leaves alone everything a recovery
  would write: the ROB and LSQ pointers, the rename tables, the fetch unit, the alias
  predictor and the valid bits of the ROB entries; no misprediction is counted. A correct
  prediction is counted exactly when the result is valid, that is when the target passes
  the execute permission check (or the uop is a barrier) and the callback did not flag its
  result invalid; otherwise the uop is counted as an exception for the commit stage. So an
  annulment or a fetch redirection out of a branch needs a produced target different from
  \<open>riptaken\<close>.
\<close>

theorem predicted_branch_never_annuls:
  assumes "opinfo_fu hw (opcode (uop (ROB s ! idx))) AND clusters_fu_mask hw (cluster (ROB s ! idx))
             AND fu_avail s \<noteq> 0"
    and "isbranch hw (opcode (uop (ROB s ! idx)))"
    and "\<not> isload hw (opcode (uop (ROB s ! idx)))"
    and "\<not> isstore hw (opcode (uop (ROB s ! idx)))"
    and "FLAG_INV hw \<noteq> 0"
    and "physreg (ROB s ! idx) = Some p" and "p < length (physregs s)"
    and "(in_raflags (issue_input hw (ROB s ! idx) (physregs s))
          OR in_rbflags (issue_input hw (ROB s ! idx) (physregs s))
          OR in_rcflags (issue_input hw (ROB s ! idx) (physregs s))) AND FLAG_INV hw = 0"
    and "call_exec_func X (uop (ROB s ! idx)) (issue_input hw (ROB s ! idx) (physregs s))
           = (riptaken (uop (ROB s ! idx)), rdflags)"
  shows "\<exists>s'. issue hw X idx s = Some (1, s')
           \<and> speculative_state s' = speculative_state s
           \<and> map entry_valid (ROB s') = map entry_valid (ROB s)
           \<and> stats s' ''branchpred_total_mispred'' 0 = stats s ''branchpred_total_mispred'' 0
           \<and> stats s' ''branchpred_total_correct'' 0 =
               stats s ''branchpred_total_correct'' 0 +
                 (if (isbarrier hw (opcode (uop (ROB s ! idx))) \<or> asp_check_exec X (riptaken (uop (ROB s ! idx))))
                     \<and> rdflags AND FLAG_INV hw = 0 then 1 else 0)
           \<and> stats s' ''issue_result_exception'' 0 =
               stats s ''issue_result_exception'' 0 +
                 (if (isbarrier hw (opcode (uop (ROB s ! idx))) \<or> asp_check_exec X (riptaken (uop (ROB s ! idx))))
                     \<and> rdflags AND FLAG_INV hw = 0 then 0 else 1)"
  using assms by (rule issue_predicted_branch)

text \<open>The branch in entry 2 of the small machine, predicted to go to \<open>0x2000\<close>, is such a uop.\<close>

theorem predicted_branch_never_annuls_witness:
  "\<exists>s'. issue example_hw example_extern 2 example_core = Some (1, s')
         \<and> speculative_state s' = speculative_state example_core
         \<and> map entry_valid (ROB s') = map entry_valid (ROB example_core)
         \<and> stats s' ''branchpred_total_mispred'' 0 = 0
         \<and> stats s' ''branchpred_total_correct'' 0 = 1
         \<and> stats s' ''issue_result_exception'' 0 = 0"
  using predicted_branch_never_annuls [of example_hw example_core 2 3 example_extern 0]
  by (simp add: example_defs issue_input_def RA_def RB_def RC_def)

text \<open>
  When the predicted target is not executable the same branch, producing the same
  target, is not counted as a correct prediction: \<open>issue\<close> turns the result into
  \<open>EXCEPTION_PageFaultOnExec\<close> and counts an exception.
\<close>

theorem predicted_branch_counterexample:
  "call_exec_func example_noexec (uop (ROB example_core ! 2))
     (issue_input example_hw (ROB example_core ! 2) (physregs example_core))
     = (riptaken (uop (ROB example_core ! 2)), 0)
   \<and> map_option fst (issue example_hw example_noexec 2 example_core) = Some 1
   \<and> stats (snd (the (issue example_hw example_noexec 2 example_core))) ''branchpred_total_correct'' 0 = 0
   \<and> stats (snd (the (issue example_hw example_noexec 2 example_core))) ''issue_result_exception'' 0 = 1"
proof -
  have "\<exists>s'. issue example_hw example_noexec 2 example_core = Some (1, s')
          \<and> stats s' ''branchpred_total_correct'' 0 = 0
          \<and> stats s' ''issue_result_exception'' 0 = 1"
    using issue_predicted_branch [of example_hw example_core 2 3 example_noexec 0]
    by (simp add: example_noexec_def example_defs issue_input_def RA_def RB_def RC_def) blast
  then obtain s' where "issue example_hw example_noexec 2 example_core = Some (1, s')"
    and "stats s' ''branchpred_total_correct'' 0 = 0"
    and "stats s' ''issue_result_exception'' 0 = 1"
    by blast
  moreover have "call_exec_func example_noexec (uop (ROB example_core ! 2))
      (issue_input example_hw (ROB example_core ! 2) (physregs example_core))
      = (riptaken (uop (ROB example_core ! 2)), 0)"
    by (simp add: example_noexec_def example_extern_def)
  ultimately show ?thesis by simp
qed

subsection \<open>Rename: the in-flight limits\<close>



subsection \<open>The recovery rip of an annulment\<close>

text \<open>
  Claim C4. \<open>annul\<close> is called on the ROB entry \<open>idx\<close>, with the head, the tail and
  \<open>idx\<close> indices of ROB entries and a SOM and an EOM uop somewhere in the ROB, so that
  the searches for the bounds of the macro-op end. Called to annul the uop itself
  (\<open>keep_misspec_uop\<close> false) it returns the rip of the uop, the SOM uop of its macro-op
  carrying the same rip. Called to keep the uop (\<open>keep_misspec_uop\<close> true) it returns the
  \<open>riptaken\<close> of the uop that follows the macro-op in the ROB, the first one it annuls,
  and the rip of the uop itself when nothing follows the macro-op: in neither case the
  \<open>riptaken\<close> of the uop it was called on.
\<close>

theorem annul_recovery_rip:
  assumes "idx < ROB_SIZE hw" and "ROB_head s < ROB_SIZE hw" and "ROB_tail s < ROB_SIZE hw"
    and "j < ROB_SIZE hw" and "som (uop (ROB s ! j))"
    and "k < ROB_SIZE hw" and "eom (uop (ROB s ! k))"
  shows "\<exists>somidx eomidx.
           ring_search (\<lambda>j. som (uop (ROB s ! j))) (ROB_SIZE hw) (- 1) (ROB_SIZE hw) idx = Some somidx
         \<and> ring_search (\<lambda>j. eom (uop (ROB s ! j))) (ROB_SIZE hw) 1 (ROB_SIZE hw) idx = Some eomidx
         \<and> (rip (uop (ROB s ! somidx)) = rip (uop (ROB s ! idx))
              \<longrightarrow> map_option fst (annul hw X False idx s) = Some (rip (uop (ROB s ! idx))))
         \<and> map_option fst (annul hw X True idx s)
             = Some (if add_index_modulo eomidx 1 (ROB_SIZE hw) = ROB_tail s
                     then rip (uop (ROB s ! idx))
                     else riptaken (uop (ROB s ! add_index_modulo eomidx 1 (ROB_SIZE hw))))"
proof -
  let ?n = "ROB_SIZE hw"
  obtain somidx where som: "ring_search (\<lambda>j. som (uop (ROB s ! j))) ?n (- 1) ?n idx = Some somidx"
    using ring_search_total_dec [of idx ?n j "\<lambda>j. som (uop (ROB s ! j))"] assms(1,4,5) by blast
  obtain eomidx where eom: "ring_search (\<lambda>j. eom (uop (ROB s ! j))) ?n 1 ?n idx = Some eomidx"
    using ring_search_total_inc [of idx ?n k "\<lambda>j. eom (uop (ROB s ! j))"] assms(1,6,7) by blast
  obtain s1 where f: "annul hw X False idx s
      = Some (if somidx = ROB_tail s then rip (uop (ROB s ! idx)) else rip (uop (ROB s ! somidx)), s1)"
    using annul_returns [OF assms(1,2,3) som eom, of X False] by (auto simp add: Let_def)
  obtain s2 where t: "annul hw X True idx s
      = Some (if add_index_modulo eomidx 1 ?n = ROB_tail s then rip (uop (ROB s ! idx))
              else riptaken (uop (ROB s ! add_index_modulo eomidx 1 ?n)), s2)"
    using annul_returns [OF assms(1,2,3) som eom, of X True] by (auto simp add: Let_def)
  show ?thesis
    apply (rule exI [of _ somidx])
    apply (rule exI [of _ eomidx])
    using som eom f t by simp
qed

text \<open>
  On \<open>example_mispredict\<close> the branch in entry 1 is predicted to go to \<open>0x3000\<close> and the
  branch in entry 2 to \<open>0x2000\<close>: \<open>annul\<close> called to keep the branch in entry 1 returns
  \<open>0x2000\<close>. On the small machine the branch in entry 2, predicted to go to \<open>0x2000\<close>, is
  the last uop in the ROB: called to keep it, \<open>annul\<close> returns its rip \<open>0x1008\<close>, as it
  does when called to annul it.
\<close>

theorem annul_recovery_rip_witness:
  "riptaken (uop (ROB example_mispredict ! 1)) = 0x3000
   \<and> riptaken (uop (ROB example_mispredict ! 2)) = 0x2000
   \<and> map_option fst (annul example_hw example_extern True 1 example_mispredict) = Some 0x2000
   \<and> rip (uop (ROB example_core ! 2)) = 0x1008
   \<and> riptaken (uop (ROB example_core ! 2)) = 0x2000
   \<and> map_option fst (annul example_hw example_extern True 2 example_core) = Some 0x1008
   \<and> map_option fst (annul example_hw example_extern False 2 example_core) = Some 0x1008"
proof -
  have h: "2 < ROB_SIZE example_hw" "ROB_head example_core < ROB_SIZE example_hw"
    "ROB_tail example_core < ROB_SIZE example_hw"
    "som (uop (ROB example_core ! 2))" "eom (uop (ROB example_core ! 2))"
    by (simp_all add: example_defs)
  have som: "ring_search (\<lambda>j. som (uop (ROB example_core ! j))) (ROB_SIZE example_hw) (- 1)
               (ROB_SIZE example_hw) 2 = Some 2"
    using h(4) by (rule ring_search_here)
  have eom: "ring_search (\<lambda>j. eom (uop (ROB example_core ! j))) (ROB_SIZE example_hw) 1
               (ROB_SIZE example_hw) 2 = Some 2"
    using h(5) by (rule ring_search_here)
  have c: "add_index_modulo 2 1 (ROB_SIZE example_hw) = ROB_tail example_core"
    "rip (uop (ROB example_core ! 2)) = 0x1008" "riptaken (uop (ROB example_core ! 2)) = 0x2000"
    by (simp_all add: example_defs add_index_modulo_def)
  from annul_recovery_rip [OF h(1) h(2) h(3) h(1) h(4) h(1) h(5), of example_extern]
  have a: "map_option fst (annul example_hw example_extern True 2 example_core) = Some 0x1008"
    "map_option fst (annul example_hw example_extern False 2 example_core) = Some 0x1008"
    unfolding som eom using c by simp_all
  have g: "Suc 0 < ROB_SIZE example_hw" "ROB_head example_mispredict < ROB_SIZE example_hw"
    "ROB_tail example_mispredict < ROB_SIZE example_hw"
    "som (uop (ROB example_mispredict ! Suc 0))" "eom (uop (ROB example_mispredict ! Suc 0))"
    by (simp_all add: example_mispredict_def example_defs)
  have som': "ring_search (\<lambda>j. som (uop (ROB example_mispredict ! j))) (ROB_SIZE example_hw) (- 1)
               (ROB_SIZE example_hw) (Suc 0) = Some (Suc 0)"
    using g(4) by (rule ring_search_here)
  have eom': "ring_search (\<lambda>j. eom (uop (ROB example_mispredict ! j))) (ROB_SIZE example_hw) 1
               (ROB_SIZE example_hw) (Suc 0) = Some (Suc 0)"
    using g(5) by (rule ring_search_here)
  have d: "add_index_modulo (Suc 0) 1 (ROB_SIZE example_hw) = 2"
    "ROB_tail example_mispredict = 3"
    "riptaken (uop (ROB example_mispredict ! Suc 0)) = 0x3000"
    "riptaken (uop (ROB example_mispredict ! 2)) = 0x2000"
    by (simp_all add: example_mispredict_def example_defs add_index_modulo_def)
  from annul_recovery_rip [OF g(1) g(2) g(3) g(1) g(4) g(1) g(5), of example_extern]
  have b: "map_option fst (annul example_hw example_extern True (Suc 0) example_mispredict) = Some 0x2000"
    unfolding som' eom' by (simp add: d)
  show ?thesis using a b c d by simp
qed

subsection \<open>Store issue: a later load to the same block\<close>



subsection \<open>Commit of a macro-op\<close>

text \<open>
  Claim C2. \<open>commit\<close> is called on ROB entry \<open>idx\<close> and scans the ROB from there in
  program order. Let the scan meet, \<open>m\<close> places on and before it reaches the tail, the
  first entry that is not ready to commit, or has an exception, or ends the macro-op.
  Then \<open>commit\<close> returns \<open>COMMIT_RESULT_NONE\<close> exactly when that entry is not ready to
  commit, whether or not an entry behind it has an exception; it returns
  \<open>COMMIT_RESULT_EXCEPTION\<close>, with the exception code in \<open>ctx.exception\<close>, exactly when
  that entry is ready and has an exception; and the uop commits, with
  \<open>COMMIT_RESULT_OK\<close> or \<open>COMMIT_RESULT_BARRIER\<close>, exactly when that entry is the EOM
  uop, ready and free of exceptions like all the entries before it. When the uop does
  not commit, the architectural state is left as it was.
\<close>

theorem commit_whole_macro_op:
  assumes "idx < ROB_SIZE hw" and "m < ROB_SIZE hw"
    and "\<forall>d<m. ready_to_commit (ROB s ! ((idx + d) mod ROB_SIZE hw))
              \<and> \<not> has_exception hw s ((idx + d) mod ROB_SIZE hw)
              \<and> \<not> eom (uop (ROB s ! ((idx + d) mod ROB_SIZE hw)))
              \<and> (idx + d) mod ROB_SIZE hw \<noteq> ROB_tail s"
    and "(idx + m) mod ROB_SIZE hw \<noteq> ROB_tail s"
    and "\<not> ready_to_commit (ROB s ! ((idx + m) mod ROB_SIZE hw))
         \<or> has_exception hw s ((idx + m) mod ROB_SIZE hw)
         \<or> eom (uop (ROB s ! ((idx + m) mod ROB_SIZE hw)))"
  shows "\<exists>rc s'. commit_rob hw X idx s = Some (rc, s')
           \<and> (rc = COMMIT_RESULT_NONE) = (\<not> ready_to_commit (ROB s ! ((idx + m) mod ROB_SIZE hw)))
           \<and> (rc = COMMIT_RESULT_EXCEPTION)
               = (ready_to_commit (ROB s ! ((idx + m) mod ROB_SIZE hw))
                  \<and> has_exception hw s ((idx + m) mod ROB_SIZE hw))
           \<and> (rc = COMMIT_RESULT_OK \<or> rc = COMMIT_RESULT_BARRIER)
               = (ready_to_commit (ROB s ! ((idx + m) mod ROB_SIZE hw))
                  \<and> \<not> has_exception hw s ((idx + m) mod ROB_SIZE hw)
                  \<and> eom (uop (ROB s ! ((idx + m) mod ROB_SIZE hw))))
           \<and> (rc = COMMIT_RESULT_NONE \<or> rc = COMMIT_RESULT_EXCEPTION
                \<longrightarrow> architectural_state s' = architectural_state s)
           \<and> (rc = COMMIT_RESULT_EXCEPTION
                \<longrightarrow> ctx_exception s'
                      = pr_data (physregs s ! the (physreg (ROB s ! ((idx + m) mod ROB_SIZE hw)))))"
proof -
  let ?j = "(idx + m) mod ROB_SIZE hw"
  note stop = commit_first_stop [OF assms(1-4), of X]
  consider (waiting) "\<not> ready_to_commit (ROB s ! ?j)"
    | (raised) "ready_to_commit (ROB s ! ?j)" "has_exception hw s ?j"
    | (last) "ready_to_commit (ROB s ! ?j)" "\<not> has_exception hw s ?j" "eom (uop (ROB s ! ?j))"
    using assms(5) by blast
  then show ?thesis
  proof cases
    case waiting
    then obtain s' where "commit_rob hw X idx s = Some (COMMIT_RESULT_NONE, s')"
      and "architectural_state s' = architectural_state s"
      using stop by blast
    then show ?thesis using waiting by simp
  next
    case raised
    then obtain s' where "commit_rob hw X idx s = Some (COMMIT_RESULT_EXCEPTION, s')"
      and "architectural_state s' = architectural_state s"
      and "ctx_exception s' = pr_data (physregs s ! the (physreg (ROB s ! ?j)))"
      using stop by blast
    then show ?thesis using raised by simp
  next
    case last
    then obtain rc s' where "commit_rob hw X idx s = Some (rc, s')"
      and "rc = COMMIT_RESULT_OK \<or> rc = COMMIT_RESULT_BARRIER"
      using stop by blast
    then show ?thesis using last by auto
  qed
qed

text \<open>
  With both uops of the macro-op ready to commit, the exception of the second is raised
  when \<open>commit\<close> is called on the first.
\<close>

theorem commit_whole_macro_op_witness:
  "\<exists>s'. commit_rob example_hw example_extern 0 example_commit_ready = Some (COMMIT_RESULT_EXCEPTION, s')
         \<and> architectural_state s' = architectural_state example_commit_ready
         \<and> ctx_exception s' = 1"
proof -
  have r: "ready_to_commit (ROB example_commit_ready ! 0)" "ready_to_commit (ROB example_commit_ready ! 1)"
    "\<not> eom (uop (ROB example_commit_ready ! 0))"
    "\<not> has_exception example_hw example_commit_ready 0" "has_exception example_hw example_commit_ready 1"
    "pr_data (physregs example_commit_ready ! the (physreg (ROB example_commit_ready ! 1))) = 1"
    by (simp_all add: example_commit_ready_ROB ready_to_commit_def has_exception_def example_rob_def
          example_uop_def example_core_def example_physreg_def example_hw_def)
  have n: "ROB_SIZE example_hw = 4" by (simp add: example_hw_def)
  have "\<forall>d<1. ready_to_commit (ROB example_commit_ready ! ((0 + d) mod ROB_SIZE example_hw))
              \<and> \<not> has_exception example_hw example_commit_ready ((0 + d) mod ROB_SIZE example_hw)
              \<and> \<not> eom (uop (ROB example_commit_ready ! ((0 + d) mod ROB_SIZE example_hw)))
              \<and> (0 + d) mod ROB_SIZE example_hw \<noteq> ROB_tail example_commit_ready"
    using r by (simp add: n example_commit_ready_ROB)
  from commit_whole_macro_op [OF _ _ this, of example_extern]
  show ?thesis using r by (simp add: n example_commit_ready_ROB)
qed

text \<open>
  C2 as stated fails while the first uop is still executing: the second uop of the
  macro-op has its exception, and \<open>commit\<close> returns \<open>COMMIT_RESULT_NONE\<close>.
\<close>

theorem commit_whole_macro_op_counterexample:
  "som (uop (ROB example_commit_waiting ! 0)) \<and> \<not> eom (uop (ROB example_commit_waiting ! 0))
   \<and> eom (uop (ROB example_commit_waiting ! 1)) \<and> has_exception example_hw example_commit_waiting 1
   \<and> map_option fst (commit_rob example_hw example_extern 0 example_commit_waiting) = Some COMMIT_RESULT_NONE"
proof -
  have r: "som (uop (ROB example_commit_waiting ! 0))" "\<not> eom (uop (ROB example_commit_waiting ! 0))"
    "eom (uop (ROB example_commit_waiting ! 1))" "has_exception example_hw example_commit_waiting 1"
    "\<not> ready_to_commit (ROB example_commit_waiting ! 0)" "ROB_tail example_commit_waiting = 3"
    by (simp_all add: example_commit_waiting_def ready_to_commit_def has_exception_def example_rob_def
          example_uop_def example_core_def example_physreg_def example_hw_def)
  have n: "ROB_SIZE example_hw = 4" by (simp add: example_hw_def)
  from commit_first_stop [of 0 example_hw 0 example_commit_waiting example_extern]
  have "\<exists>s'. commit_rob example_hw example_extern 0 example_commit_waiting = Some (COMMIT_RESULT_NONE, s')"
    using r by (auto simp add: n)
  then show ?thesis using r by auto
qed

subsection \<open>The configuration parser\<close>

lemma find_option_excludeld:
  "find_option options ''excludeld'' =
     Some (mk_option (Some ''excludeld'') OPTION_TYPE_BOOL ''Exclude dynamic linker execution'' (Some ''include_dyn_linker''))"
  by (simp add: options_def mk_option_def)

text \<open>
  C10. A boolean option does not store "true": each occurrence of the flag replaces the
  backing variable by its logical negation (\<open>0\<close> becomes \<open>1\<close>, anything else becomes
  \<open>0\<close>) and parsing goes on with the next argument. So \<open>-excludeld\<close>, whose variable
  \<open>include_dyn_linker\<close> starts at 1, switches it to 0 when given once, and back to 1 when
  given twice.
\<close>

theorem bool_option_inverts:
  assumes "find_option options name = Some e"
    and "opt_type e = OPTION_TYPE_BOOL"
    and "opt_variable e = Some var"
    and "name \<noteq> []"
  shows "parse_args strtoll ((CHR ''-'' # name) # rest) vars
           = parse_args strtoll rest (vars(var := toggle (vars var)))
         \<and> toggle (W64v w) = W64v (if w = 0 then 1 else 0)
         \<and> initial_vars MAX_CYCLE ''include_dyn_linker'' = W64v 1
         \<and> map_option (\<lambda>vs. vs ''include_dyn_linker'')
               (parse_options strtoll MAX_CYCLE [''-excludeld'']) = Some (W64v 0)
         \<and> map_option (\<lambda>vs. vs ''include_dyn_linker'')
               (parse_options strtoll MAX_CYCLE [''-excludeld'', ''-excludeld'']) = Some (W64v 1)"
proof -
  have step: "parse_args strtoll ((CHR ''-'' # name) # rest) vars
                = parse_args strtoll rest (vars(var := toggle (vars var)))"
    using assms by (simp add: toggle_var_def)
  have init: "initial_vars MAX_CYCLE ''include_dyn_linker'' = W64v 1"
    by (simp add: initial_vars_def)
  have once: "map_option (\<lambda>vs. vs ''include_dyn_linker'')
                (parse_options strtoll MAX_CYCLE [''-excludeld'']) = Some (W64v 0)"
    by (simp add: parse_options_def find_option_excludeld mk_option_def toggle_var_def init)
  have twice: "map_option (\<lambda>vs. vs ''include_dyn_linker'')
                 (parse_options strtoll MAX_CYCLE [''-excludeld'', ''-excludeld'']) = Some (W64v 1)"
    by (simp add: parse_options_def find_option_excludeld mk_option_def toggle_var_def init)
  show ?thesis using step init once twice by simp
qed

theorem bool_option_inverts_witness:
  "parse_args (\<lambda>p. 0) [''-excludeld''] (initial_vars 0)
     = Some ((initial_vars 0)(''include_dyn_linker'' := toggle (initial_vars 0 ''include_dyn_linker'')))
   \<and> map_option (\<lambda>vs. vs ''include_dyn_linker'')
         (parse_options (\<lambda>p. 0) 0 [''-excludeld'']) = Some (W64v 0)"
  using bool_option_inverts [OF find_option_excludeld, where var = "''include_dyn_linker''"
          and strtoll = "\<lambda>p. 0" and rest = "[]" and vars = "initial_vars 0"
          and w = 0 and MAX_CYCLE = 0]
  by (simp add: mk_option_def)

end
